theory Spec2Isabelle
  imports Complex_Main "HOL-Library.Multiset" "HOL-Library.Sublist"
begin

section \<open>Strings\<close>

text \<open>
  A Python \<open>str\<close> is modelled as a \<open>string\<close> whose characters are the code points
  0..255 (Latin-1); every literal of \<open>main_wpp.py\<close> lies in that range. The character
  classes below are Python's \<open>str.isdigit\<close>, \<open>str.isspace\<close> and \<open>str.lower\<close>
  restricted to these code points.
\<close>

definition code_point :: "char \<Rightarrow> nat" where
  "code_point c = of_char c"

definition str_isdigit :: "char \<Rightarrow> bool" where
  \<comment> \<open>\<open>'0'..'9'\<close> and the superscript digits U+00B2, U+00B3, U+00B9.\<close>
  "str_isdigit c =
     (let n = code_point c in (48 \<le> n \<and> n \<le> 57) \<or> n = 178 \<or> n = 179 \<or> n = 185)"

definition str_isspace :: "char \<Rightarrow> bool" where
  \<comment> \<open>\<open>\t \n \v \f \r\<close>, U+001C..U+001F, space, U+0085 and U+00A0.\<close>
  "str_isspace c =
     (let n = code_point c in (9 \<le> n \<and> n \<le> 13) \<or> (28 \<le> n \<and> n \<le> 32) \<or> n = 133 \<or> n = 160)"

definition char_lower :: "char \<Rightarrow> char" where
  \<comment> \<open>\<open>A..Z\<close> and U+00C0..U+00DE (without the multiplication sign U+00D7) move up by 32.\<close>
  "char_lower c =
     (let n = code_point c in
      if (65 \<le> n \<and> n \<le> 90) \<or> (192 \<le> n \<and> n \<le> 222 \<and> n \<noteq> 215) then char_of (n + 32) else c)"

definition str_lower :: "string \<Rightarrow> string" where
  "str_lower s = map char_lower s"

definition lstrip :: "string \<Rightarrow> string" where
  "lstrip s = dropWhile str_isspace s"

definition rstrip :: "string \<Rightarrow> string" where
  "rstrip s = rev (dropWhile str_isspace (rev s))"

definition strip :: "string \<Rightarrow> string" where
  \<comment> \<open>\<open>str.strip()\<close> with no argument: whitespace is removed at both ends.\<close>
  "strip s = rstrip (lstrip s)"

section \<open>The number source\<close>

text \<open>
  The value of a worksheet cell: \<open>None\<close>, a \<open>str\<close>, or any other object (an int, a
  float, a date), which the code only ever reads through \<open>str(value)\<close>; \<open>VOther\<close>
  carries that text.
\<close>

datatype cell_value = VNone | VStr string | VOther string

fun py_str :: "cell_value \<Rightarrow> string" where
  "py_str VNone = ''None''"
| "py_str (VStr s) = s"
| "py_str (VOther s) = s"

fun normalize_phone :: "cell_value \<Rightarrow> string option" where
  "normalize_phone VNone = None"
| "normalize_phone v =
     (let digits = filter str_isdigit (py_str v) in if digits = [] then None else Some digits)"

fun is_header :: "cell_value \<Rightarrow> bool" where
  \<comment> \<open>\<open>isinstance(cell.value, str) and cell.value.strip().lower() == "telefones"\<close>\<close>
  "is_header (VStr s) = (str_lower (strip s) = ''telefones'')"
| "is_header _ = False"

fun limit_reached :: "int option \<Rightarrow> nat \<Rightarrow> bool" where
  \<comment> \<open>\<open>limit and len(numbers) >= limit\<close>: \<open>None\<close> and \<open>0\<close> are falsy.\<close>
  "limit_reached None n = False"
| "limit_reached (Some l) n = (l \<noteq> 0 \<and> l \<le> int n)"

fun collect_numbers :: "int option \<Rightarrow> cell_value list \<Rightarrow> string list \<Rightarrow> string list" where
  \<comment> \<open>The first loop of \<open>load_numbers\<close>; the third argument is \<open>numbers\<close> so far.\<close>
  "collect_numbers limit [] numbers = numbers"
| "collect_numbers limit (c # cs) numbers =
     (if is_header c then collect_numbers limit cs numbers
      else case normalize_phone c of
             None \<Rightarrow> collect_numbers limit cs numbers
           | Some digits \<Rightarrow>
               (let numbers' = numbers @ [digits]
                in if limit_reached limit (length numbers') then numbers'
                   else collect_numbers limit cs numbers'))"

fun ordered_unique_loop :: "string list \<Rightarrow> string set \<Rightarrow> string list \<Rightarrow> string list" where
  \<comment> \<open>The second loop of \<open>load_numbers\<close>, over \<open>seen\<close> and \<open>ordered_unique\<close>.\<close>
  "ordered_unique_loop [] seen acc = acc"
| "ordered_unique_loop (n # ns) seen acc =
     (if n \<notin> seen then ordered_unique_loop ns (insert n seen) (acc @ [n])
      else ordered_unique_loop ns seen acc)"

definition load_numbers_cells :: "cell_value list \<Rightarrow> int option \<Rightarrow> string list" where
  \<comment> \<open>\<open>load_numbers\<close> once \<open>worksheet[column]\<close> has been read.\<close>
  "load_numbers_cells cells limit =
     ordered_unique_loop (collect_numbers limit cells []) {} []"

text \<open>What the claims compare the loops with.\<close>

definition valid_numbers :: "cell_value list \<Rightarrow> string list" where
  \<comment> \<open>The normalized entries of a column, header cells and empty results left out.\<close>
  "valid_numbers cells = List.map_filter normalize_phone (filter (\<lambda>c. \<not> is_header c) cells)"

definition first_occurrences :: "'a list \<Rightarrow> 'a list" where
  \<comment> \<open>The entries of a list that did not occur at an earlier position, in order.\<close>
  "first_occurrences xs =
     map (\<lambda>i. xs ! i) (filter (\<lambda>i. xs ! i \<notin> set (take i xs)) [0..<length xs])"

section \<open>Exceptions and the outside world\<close>

text \<open>
  The exceptions the program can meet. All but \<open>KeyboardInterrupt\<close> are subclasses of
  Python's \<open>Exception\<close>, which is what \<open>except Exception\<close> catches.
\<close>

datatype exc =
    WebDriverException | TimeoutException | NoAlertPresentException
  | ValueError | ZeroDivisionError | OverflowError | OSError | KeyboardInterrupt

fun is_Exception :: "exc \<Rightarrow> bool" where
  "is_Exception KeyboardInterrupt = False"
| "is_Exception _ = True"

text \<open>One constructor for each logging call of the module, with its arguments.\<close>

datatype log_record =
    Info_sent string            \<comment> \<open>\<open>logging.info("Mensagem enviada para %s", number)\<close>\<close>
  | Error_with string exc       \<comment> \<open>\<open>logging.error("Erro com %s: %s", number, exc)\<close>\<close>
  | Debug_alert                 \<comment> \<open>\<open>logging.debug("Alert aceito")\<close>\<close>
  | Warning_report_invalid string
  | Warning_no_numbers
  | Info_total nat
  | Info_summary string

text \<open>
  The calls that act on the world outside the process. A trace is the list of the calls
  made so far, oldest first, each with the exception it raised, if any.
\<close>

datatype call =
    Get string                  \<comment> \<open>\<open>browser.get(url)\<close>\<close>
  | Until_title                 \<comment> \<open>\<open>wait.until(EC.title_contains('WhatsApp'))\<close>\<close>
  | Until_message_box           \<comment> \<open>\<open>wait_for_message_box(wait)\<close>\<close>
  | Send_keys string            \<comment> \<open>\<open>input_box.send_keys(message)\<close>\<close>
  | Sleep real                  \<comment> \<open>\<open>time.sleep(delay)\<close>\<close>
  | Switch_to_alert             \<comment> \<open>\<open>browser.switch_to.alert\<close>\<close>
  | Alert_accept                \<comment> \<open>\<open>alert.accept()\<close>\<close>
  | Chrome "string option" bool \<comment> \<open>\<open>webdriver.Chrome(service=service, options=options)\<close>\<close>
  | Maximize_window
  | Quit                        \<comment> \<open>\<open>browser.quit()\<close>\<close>
  | Print string
  | Log log_record

type_synonym event = "call \<times> exc option"

type_synonym trace = "event list"

text \<open>
  The environment decides what the program cannot: whether a call raises, given the
  trace before it, what the clock reads, what the files hold, and the least and the
  greatest number of seconds that the C library of the platform converts to a date.
\<close>

record env =
  outcome :: "trace \<Rightarrow> call \<Rightarrow> exc option"
  clock :: "trace \<Rightarrow> real"
  file_text :: "string \<Rightarrow> exc + string"
  worksheet_column :: "string \<Rightarrow> string \<Rightarrow> string \<Rightarrow> exc + cell_value list"
  gmtime_least :: int
  gmtime_greatest :: int

text \<open>A computation takes the trace and returns a value or an exception, and the new trace.\<close>

type_synonym 'a io = "trace \<Rightarrow> (exc + 'a) \<times> trace"

definition return :: "'a \<Rightarrow> 'a io" where
  "return x tr = (Inr x, tr)"

definition raise :: "exc \<Rightarrow> 'a io" where
  "raise e tr = (Inl e, tr)"

definition lift :: "exc + 'a \<Rightarrow> 'a io" where
  "lift r tr = (r, tr)"

definition bind :: "'a io \<Rightarrow> ('a \<Rightarrow> 'b io) \<Rightarrow> 'b io" where
  "bind m f tr = (case m tr of (Inl e, tr') \<Rightarrow> (Inl e, tr') | (Inr x, tr') \<Rightarrow> f x tr')"

definition try_except :: "'a io \<Rightarrow> (exc \<Rightarrow> 'a io) \<Rightarrow> 'a io" where
  \<comment> \<open>\<open>try: m  except Exception as exc: h exc\<close>\<close>
  "try_except m h tr =
     (case m tr of
        (Inl e, tr') \<Rightarrow> if is_Exception e then h e tr' else (Inl e, tr')
      | (Inr x, tr') \<Rightarrow> (Inr x, tr'))"

definition try_finally :: "'a io \<Rightarrow> unit io \<Rightarrow> 'a io" where
  \<comment> \<open>\<open>try: m  finally: fin\<close>: an exception of \<open>fin\<close> replaces the outcome of \<open>m\<close>.\<close>
  "try_finally m fin tr =
     (case m tr of
        (r, tr') \<Rightarrow> (case fin tr' of (Inl e, tr'') \<Rightarrow> (Inl e, tr'') | (Inr _, tr'') \<Rightarrow> (r, tr'')))"

definition perform :: "env \<Rightarrow> call \<Rightarrow> unit io" where
  "perform E c tr =
     (let r = outcome E tr c
      in ((case r of None \<Rightarrow> Inr () | Some e \<Rightarrow> Inl e), tr @ [(c, r)]))"

definition logging :: "log_record \<Rightarrow> unit io" where
  \<comment> \<open>A call of a logging function; the logging module does not raise.\<close>
  "logging r tr = (Inr (), tr @ [(Log r, None)])"

definition sleep_max :: real where
  \<comment> \<open>The longest sleep, in seconds: \<open>time.sleep\<close> keeps the length as a signed 64-bit
      number of nanoseconds.\<close>
  "sleep_max = 9223372036854775807 / 1000000000"

definition time_sleep :: "env \<Rightarrow> real \<Rightarrow> unit io" where
  \<comment> \<open>\<open>time.sleep\<close> refuses a negative length with \<open>ValueError\<close> and a length that
      does not fit with \<open>OverflowError\<close>, in both cases before sleeping.\<close>
  "time_sleep E secs =
     (if secs < 0 then raise ValueError
      else if sleep_max < secs then raise OverflowError
      else perform E (Sleep secs))"

definition time_time :: "env \<Rightarrow> real io" where
  "time_time E tr = (Inr (clock E tr), tr)"

section \<open>Message provider and number source\<close>

definition DEFAULT_MESSAGE :: string where
  "DEFAULT_MESSAGE =
     ''Ol'' @ [CHR 0xE1] @ '', boa noite! Tudo bem?'' @ [CHR 0x0A] @
     ''Me chamo Karina e falo do Recrutamento e Sele'' @ [CHR 0xE7] @ [CHR 0xE3] @
     ''o do Grupo Segurpro.'' @ [CHR 0x0A] @
     ''Estamos com oportunidades para atuar como Vigilante Intermitente em uma opera'' @
     [CHR 0xE7] @ [CHR 0xE3] @ ''o especial de grande porte em S'' @ [CHR 0xE3] @
     ''o Paulo nos dias 12, 13 e 14/09.'' @ [CHR 0x0A] @
     ''Voc'' @ [CHR 0xEA] @ '' possui interesse?'' @ [CHR 0x0A] @
     ''Se tiver disponibilidade imediata e reciclagem em dia, pedimos que compare'' @
     [CHR 0xE7] @ ''a com seus documentos em:'' @ [CHR 0x0A] @
     ''RUA DOS ITALIANOS, 988 - BOM RETIRO'' @ [CHR 0x0A] @
     ''Amanh'' @ [CHR 0xE3] @ '' (11/09) '' @ [CHR 0xC0] @ ''S 8H.'' @ [CHR 0x0A] @
     ''Contamos com sua presen'' @ [CHR 0xE7] @ ''a!'' @ [CHR 0x0A]"

fun load_message :: "env \<Rightarrow> string option \<Rightarrow> exc + string" where
  "load_message E None = Inr DEFAULT_MESSAGE"
| "load_message E (Some message_file) =
     (case file_text E message_file of Inl e \<Rightarrow> Inl e | Inr text \<Rightarrow> Inr (strip text))"

definition load_numbers :: "env \<Rightarrow> string \<Rightarrow> string \<Rightarrow> string \<Rightarrow> int option \<Rightarrow> exc + string list" where
  "load_numbers E workbook_path sheet_name column_name limit =
     (case worksheet_column E workbook_path sheet_name column_name of
        Inl e \<Rightarrow> Inl e
      | Inr cells \<Rightarrow> Inr (load_numbers_cells cells limit))"

section \<open>Browser session and send protocol\<close>

definition build_browser :: "env \<Rightarrow> int \<Rightarrow> string option \<Rightarrow> bool \<Rightarrow> unit io" where
  \<comment> \<open>The options are built in memory; the two calls that reach the driver are recorded.\<close>
  "build_browser E max_wait user_data_dir headless =
     bind (perform E (Chrome user_data_dir headless)) (\<lambda>_. perform E Maximize_window)"

definition send_url :: "string \<Rightarrow> string" where
  "send_url number =
     ''https://web.whatsapp.com/send/?phone=55'' @ number @
     ''&text&type=phone_number&app_absent=0''"

definition dismiss_alert :: "env \<Rightarrow> unit io" where
  "dismiss_alert E =
     try_except
       (bind (perform E Switch_to_alert) (\<lambda>_.
        bind (perform E Alert_accept) (\<lambda>_.
        logging Debug_alert)))
       (\<lambda>_. return ())"

definition send_message_try :: "env \<Rightarrow> string \<Rightarrow> string \<Rightarrow> bool io" where
  \<comment> \<open>The \<open>try\<close> and \<open>except\<close> clauses of \<open>send_message\<close>.\<close>
  "send_message_try E number message =
     try_except
       (bind (perform E (Get (send_url number))) (\<lambda>_.
        bind (perform E Until_title) (\<lambda>_.
        bind (perform E Until_message_box) (\<lambda>_.
        bind (perform E (Send_keys message)) (\<lambda>_.
        bind (logging (Info_sent number)) (\<lambda>_.
        return True))))))
       (\<lambda>exc. bind (logging (Error_with number exc)) (\<lambda>_. return False))"

definition send_message_finally :: "env \<Rightarrow> real \<Rightarrow> unit io" where
  \<comment> \<open>The \<open>finally\<close> clause of \<open>send_message\<close>.\<close>
  "send_message_finally E delay = bind (time_sleep E delay) (\<lambda>_. dismiss_alert E)"

definition send_message :: "env \<Rightarrow> string \<Rightarrow> string \<Rightarrow> real \<Rightarrow> bool io" where
  "send_message E number message delay =
     try_finally (send_message_try E number message) (send_message_finally E delay)"

section \<open>Run orchestrator\<close>

record RunStats =
  successful_numbers :: "string list"
  failed_numbers :: "string list"

definition total :: "RunStats \<Rightarrow> nat" where
  "total stats = length (successful_numbers stats) + length (failed_numbers stats)"

fun process_loop ::
  "env \<Rightarrow> string list \<Rightarrow> string \<Rightarrow> real \<Rightarrow> string list \<Rightarrow> string list \<Rightarrow> RunStats io" where
  \<comment> \<open>The loop of \<open>process_numbers\<close> over the lists \<open>successful\<close> and \<open>failed\<close>.\<close>
  "process_loop E [] message delay successful failed =
     return \<lparr>successful_numbers = successful, failed_numbers = failed\<rparr>"
| "process_loop E (number # numbers) message delay successful failed =
     bind (send_message E number message delay) (\<lambda>sent.
       if sent then process_loop E numbers message delay (successful @ [number]) failed
       else process_loop E numbers message delay successful (failed @ [number]))"

definition process_numbers :: "env \<Rightarrow> string list \<Rightarrow> string \<Rightarrow> real \<Rightarrow> RunStats io" where
  "process_numbers E numbers message delay = process_loop E numbers message delay [] []"

fun send_report :: "env \<Rightarrow> string list \<Rightarrow> string \<Rightarrow> real \<Rightarrow> unit io" where
  "send_report E [] message delay = return ()"
| "send_report E (number # numbers) message delay =
     (case normalize_phone (VStr number) of
        None \<Rightarrow>
          bind (logging (Warning_report_invalid number)) (\<lambda>_.
          send_report E numbers message delay)
      | Some normalized \<Rightarrow>
          bind (send_message E normalized message delay) (\<lambda>_.
          send_report E numbers message delay))"

section \<open>Statistics and reporting\<close>

definition digit_char :: "nat \<Rightarrow> char" where
  "digit_char d = ''0123456789abcdef'' ! d"

fun str_nat :: "nat \<Rightarrow> string" where
  \<comment> \<open>\<open>str\<close> of a non-negative int.\<close>
  "str_nat n = (if n < 10 then [digit_char n] else str_nat (n div 10) @ [digit_char (n mod 10)])"

declare str_nat.simps [simp del]

definition str_isprintable :: "char \<Rightarrow> bool" where
  \<comment> \<open>Not a control character, nor U+00A0 or U+00AD.\<close>
  "str_isprintable c = (let n = code_point c in (32 \<le> n \<and> n < 127) \<or> (161 \<le> n \<and> n \<noteq> 173))"

definition repr_char :: "char \<Rightarrow> char \<Rightarrow> string" where
  "repr_char quote c =
     (if c = quote \<or> c = CHR 0x5C then [CHR 0x5C, c]
      else if c = CHR 0x09 then [CHR 0x5C, CHR ''t'']
      else if c = CHR 0x0A then [CHR 0x5C, CHR ''n'']
      else if c = CHR 0x0D then [CHR 0x5C, CHR ''r'']
      else if str_isprintable c then [c]
      else [CHR 0x5C, CHR ''x'', digit_char (code_point c div 16), digit_char (code_point c mod 16)])"

definition repr_str :: "string \<Rightarrow> string" where
  \<comment> \<open>\<open>repr\<close> of a str: double quotes only when it holds a single quote and no double one.\<close>
  "repr_str s =
     (let quote = (if CHR 0x27 \<in> set s \<and> CHR 0x22 \<notin> set s then CHR 0x22 else CHR 0x27)
      in [quote] @ concat (map (repr_char quote) s) @ [quote])"

fun join :: "string \<Rightarrow> string list \<Rightarrow> string" where
  "join sep [] = []"
| "join sep [x] = x"
| "join sep (x # y # ys) = x @ sep @ join sep (y # ys)"

definition repr_list :: "string list \<Rightarrow> string" where
  "repr_list xs = ''['' @ join '', '' (map repr_str xs) @ '']''"

definition two_digits :: "nat \<Rightarrow> string" where
  "two_digits n = [digit_char (n div 10), digit_char (n mod 10)]"

definition time_gmtime :: "env \<Rightarrow> real \<Rightarrow> exc + int" where
  \<comment> \<open>\<open>time.gmtime\<close> rounds down to whole seconds, raises \<open>OverflowError\<close> when they do
      not fit a 64-bit \<open>time_t\<close> and \<open>OSError\<close> when the C library cannot convert them;
      of the date it returns, the code only uses the time of day.\<close>
  "time_gmtime E seconds =
     (let t = \<lfloor>seconds\<rfloor>
      in if t < - 9223372036854775808 \<or> 9223372036854775807 < t then Inl OverflowError
         else if t < gmtime_least E \<or> gmtime_greatest E < t then Inl OSError
         else Inr t)"

definition strftime_HMS :: "int \<Rightarrow> string" where
  \<comment> \<open>\<open>time.strftime("%H:%M:%S", ...)\<close> of the date that is \<open>t\<close> seconds after the epoch.\<close>
  "strftime_HMS t =
     (let s = nat (t mod 86400)
      in two_digits (s div 3600) @ '':'' @ two_digits (s mod 3600 div 60) @ '':'' @
         two_digits (s mod 60))"

definition format_duration :: "env \<Rightarrow> real \<Rightarrow> exc + string" where
  "format_duration E seconds =
     (case time_gmtime E seconds of Inl e \<Rightarrow> Inl e | Inr t \<Rightarrow> Inr (strftime_HMS t))"

definition truediv :: "real \<Rightarrow> nat \<Rightarrow> exc + real" where
  "truediv x n = (if n = 0 then Inl ZeroDivisionError else Inr (x / real n))"

definition tempo_medio :: "RunStats \<Rightarrow> real \<Rightarrow> exc + real" where
  \<comment> \<open>\<open>elapsed / stats.total if stats.total else 0\<close>\<close>
  "tempo_medio stats elapsed = (if total stats \<noteq> 0 then truediv elapsed (total stats) else Inr 0)"

definition build_report :: "env \<Rightarrow> RunStats \<Rightarrow> real \<Rightarrow> exc + string" where
  \<comment> \<open>The average first, then the fields of the f-string from left to right.\<close>
  "build_report E stats elapsed =
     (case tempo_medio stats elapsed of
        Inl e \<Rightarrow> Inl e
      | Inr medio \<Rightarrow>
          (case format_duration E elapsed of
             Inl e \<Rightarrow> Inl e
           | Inr execucao \<Rightarrow>
               (case format_duration E medio of
                  Inl e \<Rightarrow> Inl e
                | Inr por_numero \<Rightarrow> Inr (
                    ''Total de n'' @ [CHR 0xFA] @ ''meros: '' @ str_nat (total stats) @ [CHR 0x0A] @
                    ''N'' @ [CHR 0xFA] @ ''meros enviados com sucesso: '' @
                      str_nat (length (successful_numbers stats)) @ [CHR 0x0A] @
                    ''N'' @ [CHR 0xFA] @ ''meros enviados com erro: '' @
                      str_nat (length (failed_numbers stats)) @ [CHR 0x0A] @
                    ''N'' @ [CHR 0xFA] @ ''meros com erro: '' @ repr_list (failed_numbers stats) @
                      [CHR 0x0A] @
                    ''Tempo de execu'' @ [CHR 0xE7] @ [CHR 0xE3] @ ''o: '' @ execucao @ [CHR 0x0A] @
                    ''Tempo m'' @ [CHR 0xE9] @ ''dio por n'' @ [CHR 0xFA] @ ''mero: '' @ por_numero @
                      [CHR 0x0A]))))"

section \<open>Command line and main\<close>

datatype log_level = DEBUG | INFO | WARNING | ERROR

record args =
  workbook :: string
  sheet :: string
  column :: string
  limit :: "int option"
  message_file :: "string option"
  delay :: real
  report_numbers :: "string list"
  user_data_dir :: "string option"
  headless :: bool
  max_wait :: int
  log_level :: log_level

text \<open>
  The command line as argparse sees it once it has split it into options and converted
  their values; a malformed command line ends the process inside argparse.
\<close>

datatype cli_option =
    Opt_workbook string | Opt_sheet string | Opt_column string | Opt_limit int
  | Opt_message_file string | Opt_delay real | Opt_report_number string
  | Opt_user_data_dir string | Opt_headless | Opt_max_wait int | Opt_log_level log_level

definition default_args :: args where
  "default_args =
     \<lparr>workbook = ''Pasta3.xlsx'', sheet = ''Planilha78'', column = ''A'', limit = None,
      message_file = None, delay = 5, report_numbers = [''11969257920'', ''11953075442''],
      user_data_dir = None, headless = False, max_wait = 60, log_level = INFO\<rparr>"

fun parse_option :: "args \<Rightarrow> cli_option \<Rightarrow> args" where
  \<comment> \<open>The action of each option: store, \<open>store_true\<close>, and \<open>append\<close> for \<open>--report-number\<close>,
      which copies the list the namespace holds and adds the value at its end.\<close>
  "parse_option a (Opt_workbook v) = a\<lparr>workbook := v\<rparr>"
| "parse_option a (Opt_sheet v) = a\<lparr>sheet := v\<rparr>"
| "parse_option a (Opt_column v) = a\<lparr>column := v\<rparr>"
| "parse_option a (Opt_limit v) = a\<lparr>limit := Some v\<rparr>"
| "parse_option a (Opt_message_file v) = a\<lparr>message_file := Some v\<rparr>"
| "parse_option a (Opt_delay v) = a\<lparr>delay := v\<rparr>"
| "parse_option a (Opt_report_number v) = a\<lparr>report_numbers := report_numbers a @ [v]\<rparr>"
| "parse_option a (Opt_user_data_dir v) = a\<lparr>user_data_dir := Some v\<rparr>"
| "parse_option a Opt_headless = a\<lparr>headless := True\<rparr>"
| "parse_option a (Opt_max_wait v) = a\<lparr>max_wait := v\<rparr>"
| "parse_option a (Opt_log_level v) = a\<lparr>log_level := v\<rparr>"

definition parse_args :: "cli_option list \<Rightarrow> args" where
  "parse_args argv = foldl parse_option default_args argv"

definition main_try :: "env \<Rightarrow> args \<Rightarrow> string list \<Rightarrow> string \<Rightarrow> real \<Rightarrow> RunStats io" where
  \<comment> \<open>The body of the \<open>try\<close> of \<open>main\<close>; its value is the local \<open>stats\<close> at its end.\<close>
  "main_try E a numbers message start =
     bind (process_numbers E numbers message (delay a)) (\<lambda>stats.
     bind (time_time E) (\<lambda>now.
     bind (lift (build_report E stats (now - start))) (\<lambda>report_message.
     bind (logging (Info_summary report_message)) (\<lambda>_.
     bind (send_report E (report_numbers a) report_message (delay a)) (\<lambda>_.
     bind (perform E (Print report_message)) (\<lambda>_.
     return stats))))))"

definition main_args :: "env \<Rightarrow> args \<Rightarrow> int io" where
  \<comment> \<open>\<open>main\<close> after \<open>parse_args\<close>; \<open>configure_logging\<close> sets the level and the format of
      the log and calls nothing else.\<close>
  "main_args E a =
     bind (lift (load_message E (message_file a))) (\<lambda>message.
     bind (lift (load_numbers E (workbook a) (sheet a) (column a) (limit a))) (\<lambda>numbers.
       if numbers = [] then bind (logging Warning_no_numbers) (\<lambda>_. return 1)
       else
         bind (logging (Info_total (length numbers))) (\<lambda>_.
         bind (build_browser E (max_wait a) (user_data_dir a) (headless a)) (\<lambda>_.
         bind (time_time E) (\<lambda>start.
         bind (try_finally (main_try E a numbers message start) (perform E Quit)) (\<lambda>_.
         return 0))))))"

definition main :: "env \<Rightarrow> cli_option list \<Rightarrow> (exc + int) \<times> trace" where
  \<comment> \<open>A run of the process: the trace starts empty.\<close>
  "main E argv = main_args E (parse_args argv) []"

section \<open>Notions the claims are stated with\<close>

fun is_Sleep :: "call \<Rightarrow> bool" where
  "is_Sleep (Sleep _) = True"
| "is_Sleep _ = False"

definition no_interrupts :: "env \<Rightarrow> bool" where
  \<comment> \<open>A call that fails raises a subclass of \<open>Exception\<close>, and a sleep is not cut short.\<close>
  "no_interrupts E =
     (\<forall>tr c. case outcome E tr c of None \<Rightarrow> True | Some e \<Rightarrow> is_Exception e \<and> \<not> is_Sleep c)"

definition succeeded :: "call list \<Rightarrow> trace" where
  \<comment> \<open>The events of calls that all returned.\<close>
  "succeeded cs = map (\<lambda>c. (c, None)) cs"

definition send_steps :: "string \<Rightarrow> string \<Rightarrow> call list" where
  \<comment> \<open>The calls of one attempt, in the order of the \<open>try\<close> clause.\<close>
  "send_steps number message =
     [Get (send_url number), Until_title, Until_message_box, Send_keys message]"

definition calls :: "trace \<Rightarrow> call list" where
  "calls tr = map fst tr"

fun get_url :: "call \<Rightarrow> string option" where
  "get_url (Get url) = Some url"
| "get_url _ = None"

definition navigations :: "trace \<Rightarrow> string list" where
  \<comment> \<open>The addresses the browser was sent to, in order.\<close>
  "navigations tr = List.map_filter get_url (calls tr)"

definition quits :: "trace \<Rightarrow> nat" where
  "quits tr = count_list (calls tr) Quit"

definition session_created :: "trace \<Rightarrow> bool" where
  \<comment> \<open>\<open>build_browser\<close> returned: the driver started and the window was maximized.\<close>
  "session_created tr = ((Maximize_window, None) \<in> set tr)"


fun warned_recipient :: "call \<Rightarrow> string option" where
  "warned_recipient (Log (Warning_report_invalid number)) = Some number"
| "warned_recipient _ = None"

definition report_warnings :: "trace \<Rightarrow> string list" where
  \<comment> \<open>The recipients a warning was logged for, in order.\<close>
  "report_warnings tr = List.map_filter warned_recipient (calls tr)"

definition no_report_warning :: "event \<Rightarrow> bool" where
  "no_report_warning ev = (warned_recipient (fst ev) = None)"

definition inside_session :: "event \<Rightarrow> bool" where
  \<comment> \<open>An event that neither opens nor closes the browser session.\<close>
  "inside_session ev = (fst ev \<noteq> Quit \<and> fst ev \<noteq> Maximize_window)"

definition no_navigation :: "event \<Rightarrow> bool" where
  "no_navigation ev = (get_url (fst ev) = None)"




definition appends :: "(event \<Rightarrow> bool) \<Rightarrow> 'a io \<Rightarrow> bool" where
  \<comment> \<open>The computation only adds events to the trace, and all of them satisfy \<open>P\<close>.\<close>
  "appends P m = (\<forall>tr. \<exists>evs. snd (m tr) = tr @ evs \<and> list_all P evs)"

section \<open>Concrete runs\<close>

definition env_padded_message :: env where
  \<comment> \<open>A message file that starts with a space and ends with a newline; no workbook.\<close>
  "env_padded_message =
     \<lparr>outcome = (\<lambda>tr c. None), clock = (\<lambda>tr. 0),
      file_text = (\<lambda>name. if name = ''mensagem.txt'' then Inr ('' Oi'' @ [CHR 0x0A]) else Inl OSError),
      worksheet_column = (\<lambda>path sheet_name col. Inl OSError),
      gmtime_least = - 67768040609740800, gmtime_greatest = 67768036191676799\<rparr>"


definition env_timeout :: env where
  \<comment> \<open>No dialog ever shows; the second wait for the message box times out; the workbook
      holds a header and two numbers; the message file holds \<open>Oi\<close>.\<close>
  "env_timeout =
     \<lparr>outcome = (\<lambda>tr c.
        if c = Switch_to_alert then Some NoAlertPresentException
        else if c = Until_message_box \<and> count_list (calls tr) Until_message_box = 1
          then Some TimeoutException
        else None),
      clock = (\<lambda>tr. real (length tr)),
      file_text = (\<lambda>name. Inr ''Oi''),
      worksheet_column = (\<lambda>path sheet_name col.
        if path = ''Pasta3.xlsx'' \<and> sheet_name = ''Planilha78'' \<and> col = ''A''
        then Inr [VStr ''Telefones'', VStr ''11111111111'', VStr ''22222222222'']
        else Inl OSError),
      gmtime_least = - 67768040609740800, gmtime_greatest = 67768036191676799\<rparr>"

definition env_ctrl_c :: env where
  \<comment> \<open>The user interrupts the process during the second sleep.\<close>
  "env_ctrl_c =
     \<lparr>outcome = (\<lambda>tr c.
        if c = Switch_to_alert then Some NoAlertPresentException
        else if is_Sleep c \<and> length (filter is_Sleep (calls tr)) = 1 then Some KeyboardInterrupt
        else None),
      clock = (\<lambda>tr. real (length tr)),
      file_text = (\<lambda>name. Inr ''Oi''),
      worksheet_column = (\<lambda>path sheet_name col.
        Inr [VStr ''11111111111'', VStr ''22222222222'']),
      gmtime_least = - 67768040609740800, gmtime_greatest = 67768036191676799\<rparr>"

definition env_no_numbers :: env where
  \<comment> \<open>A column without a single digit.\<close>
  "env_no_numbers =
     \<lparr>outcome = (\<lambda>tr c. None), clock = (\<lambda>tr. 0), file_text = (\<lambda>name. Inr ''Oi''),
      worksheet_column = (\<lambda>path sheet_name col.
        Inr [VStr ''Telefones'', VNone, VStr ''sem numero'', VOther '''']),
      gmtime_least = - 67768040609740800, gmtime_greatest = 67768036191676799\<rparr>"

section \<open>The number source: de-duplication and the cap\<close>

lemmas char_class_defs =
  str_isdigit_def str_isspace_def char_lower_def str_lower_def code_point_def
  strip_def lstrip_def rstrip_def

lemma ordered_unique_loop_acc:
  "ordered_unique_loop xs seen acc = acc @ ordered_unique_loop xs seen []"
proof (induction xs arbitrary: seen acc)
  case Nil
  show ?case by simp
next
  case (Cons x xs)
  show ?case
    using Cons.IH [of "insert x seen" "acc @ [x]"] Cons.IH [of "insert x seen" "[x]"]
      Cons.IH [of seen acc]
    by simp
qed

lemma ordered_unique_loop_positions:
  "ordered_unique_loop xs seen [] =
     map (\<lambda>i. xs ! i) (filter (\<lambda>i. xs ! i \<notin> seen \<union> set (take i xs)) [0..<length xs])"
proof (induction xs arbitrary: seen)
  case Nil
  show ?case by simp
next
  case (Cons x xs)
  have split: "[0..<length (x # xs)] = 0 # map Suc [0..<length xs]"
    by (simp add: upt_conv_Cons map_Suc_upt del: upt_Suc)
  show ?case
  proof (cases "x \<in> seen")
    case True
    have same: "(\<lambda>i. xs ! i \<notin> seen \<and> xs ! i \<noteq> x \<and> xs ! i \<notin> set (take i xs))
              = (\<lambda>i. xs ! i \<notin> seen \<and> xs ! i \<notin> set (take i xs))"
      using True by auto
    show ?thesis
      unfolding split using Cons.IH [of seen] True
      by (simp add: filter_map comp_def same del: upt_Suc)
  next
    case False
    then show ?thesis
      unfolding split
      using Cons.IH [of "insert x seen"] ordered_unique_loop_acc [of xs "insert x seen" "[x]"]
      by (simp add: filter_map comp_def conj_ac del: upt_Suc)
  qed
qed

lemma ordered_unique_loop_first: "ordered_unique_loop xs {} [] = first_occurrences xs"
  by (simp add: ordered_unique_loop_positions first_occurrences_def)

lemma ordered_unique_loop_set:
  "set (ordered_unique_loop xs seen acc) = set acc \<union> (set xs - seen)"
  by (induction xs arbitrary: seen acc) auto

lemma ordered_unique_loop_distinct:
  "distinct acc \<Longrightarrow> set acc \<subseteq> seen \<Longrightarrow> distinct (ordered_unique_loop xs seen acc)"
proof (induction xs arbitrary: seen acc)
  case Nil
  then show ?case by simp
next
  case (Cons x xs)
  show ?case
  proof (cases "x \<in> seen")
    case True
    then show ?thesis using Cons.IH [OF Cons.prems] by simp
  next
    case False
    with Cons.prems have "distinct (acc @ [x])" "set (acc @ [x]) \<subseteq> insert x seen"
      by auto
    from Cons.IH [OF this] False show ?thesis by simp
  qed
qed

lemma ordered_unique_loop_length:
  "length (ordered_unique_loop xs seen acc) \<le> length acc + length xs"
proof (induction xs arbitrary: seen acc)
  case Nil
  show ?case by simp
next
  case (Cons x xs)
  show ?case
    using Cons.IH [of "insert x seen" "acc @ [x]"] Cons.IH [of seen acc] by simp
qed

lemma valid_numbers_Nil: "valid_numbers [] = []"
  by (simp add: valid_numbers_def List.map_filter_simps)

lemma valid_numbers_Cons:
  "valid_numbers (c # cs) =
     (if is_header c then valid_numbers cs
      else case normalize_phone c of
             None \<Rightarrow> valid_numbers cs
           | Some d \<Rightarrow> d # valid_numbers cs)"
  by (simp add: valid_numbers_def List.map_filter_simps split: option.splits)

lemma collect_numbers_no_cap:
  "cap = None \<or> cap = Some 0 \<Longrightarrow> collect_numbers cap cells acc = acc @ valid_numbers cells"
  by (induction cells arbitrary: acc)
     (auto simp: valid_numbers_Nil valid_numbers_Cons Let_def split: option.splits)

lemma collect_numbers_cap:
  "0 < l \<Longrightarrow> int (length acc) < l \<Longrightarrow>
     collect_numbers (Some l) cells acc = take (nat l) (acc @ valid_numbers cells)"
proof (induction cells arbitrary: acc)
  case Nil
  then show ?case by (simp add: valid_numbers_Nil)
next
  case (Cons c cs)
  show ?case
  proof (cases "is_header c")
    case True
    then show ?thesis using Cons by (simp add: valid_numbers_Cons)
  next
    case no_header: False
    show ?thesis
    proof (cases "normalize_phone c")
      case None
      then show ?thesis using no_header Cons by (simp add: valid_numbers_Cons)
    next
      case (Some d)
      show ?thesis
      proof (cases "l \<le> int (length acc) + 1")
        case True
        with Cons.prems have "nat l = Suc (length acc)" by linarith
        then show ?thesis
          using True no_header Some Cons.prems by (simp add: valid_numbers_Cons)
      next
        case False
        then have "int (length (acc @ [d])) < l" by simp
        from Cons.IH [OF Cons.prems(1) this] False no_header Some
        show ?thesis using Cons.prems by (simp add: valid_numbers_Cons)
      qed
    qed
  qed
qed

text \<open>
  C6: \<open>load_numbers\<close> de-duplicates keeping first occurrences. Whatever the column and the
  limit, the result is the list of the collected numbers that did not occur at an earlier
  position, in their order; it has no duplicates and holds every collected number; without
  a limit the collected numbers are all the normalized entries of the column. For the
  numbers 11999999999, 11999999999, 11988888888 the result is 11999999999, 11988888888.
\<close>

theorem load_numbers_keeps_first_occurrences:
  "load_numbers_cells cells cap = first_occurrences (collect_numbers cap cells [])
   \<and> distinct (load_numbers_cells cells cap)
   \<and> set (load_numbers_cells cells cap) = set (collect_numbers cap cells [])
   \<and> load_numbers_cells cells None = first_occurrences (valid_numbers cells)
   \<and> load_numbers E path sheet_name col cap =
       map_sum id (\<lambda>cs. first_occurrences (collect_numbers cap cs []))
         (worksheet_column E path sheet_name col)
   \<and> load_numbers_cells [VStr ''11999999999'', VStr ''11999999999'', VStr ''11988888888''] None
       = [''11999999999'', ''11988888888'']"
proof -
  have a: "load_numbers_cells cells cap = first_occurrences (collect_numbers cap cells [])" for cells cap
    by (simp add: load_numbers_cells_def ordered_unique_loop_first)
  have b: "distinct (load_numbers_cells cells cap)"
    by (simp add: load_numbers_cells_def ordered_unique_loop_distinct)
  have c: "set (load_numbers_cells cells cap) = set (collect_numbers cap cells [])"
    by (simp add: load_numbers_cells_def ordered_unique_loop_set)
  have d: "load_numbers_cells cells None = first_occurrences (valid_numbers cells)"
    by (simp add: a collect_numbers_no_cap)
  have e: "load_numbers E path sheet_name col cap =
       map_sum id (\<lambda>cs. first_occurrences (collect_numbers cap cs []))
         (worksheet_column E path sheet_name col)"
    by (simp add: load_numbers_def a split: sum.splits)
  have f: "load_numbers_cells [VStr ''11999999999'', VStr ''11999999999'', VStr ''11988888888''] None
       = [''11999999999'', ''11988888888'']"
    by (simp add: load_numbers_cells_def char_class_defs)
  from a b c d e f show ?thesis by blast
qed

text \<open>
  C9: the cap comes before the de-duplication. With a positive limit the first loop keeps
  the first \<open>limit\<close> normalized entries, duplicates counted, so the result has at most
  \<open>limit\<close> numbers; with the entries 11999999999, 11999999999, 11988888888 and limit 2
  the result is the single number 11999999999, although a second distinct number follows.
  With no limit, or limit 0, every normalized entry is collected.
\<close>

theorem load_numbers_cap_before_dedup:
  "(0 < l \<longrightarrow>
      collect_numbers (Some l) cells [] = take (nat l) (valid_numbers cells)
      \<and> length (load_numbers_cells cells (Some l)) \<le> nat l)
   \<and> (cap = None \<or> cap = Some 0 \<longrightarrow> collect_numbers cap cells [] = valid_numbers cells)
   \<and> valid_numbers [VStr ''11999999999'', VStr ''11999999999'', VStr ''11988888888'']
        = [''11999999999'', ''11999999999'', ''11988888888'']
   \<and> load_numbers_cells [VStr ''11999999999'', VStr ''11999999999'', VStr ''11988888888''] (Some 2)
        = [''11999999999'']"
proof -
  have a: "collect_numbers (Some l) cells [] = take (nat l) (valid_numbers cells)" if "0 < l"
    using collect_numbers_cap [OF that, of "[]" cells] that by simp
  have b: "length (load_numbers_cells cells (Some l)) \<le> nat l" if "0 < l"
    using ordered_unique_loop_length [of "collect_numbers (Some l) cells []" "{}" "[]"]
    by (simp add: load_numbers_cells_def a [OF that])
  have c: "collect_numbers cap cells [] = valid_numbers cells" if "cap = None \<or> cap = Some 0"
    using collect_numbers_no_cap [OF that, of cells "[]"] by simp
  have d: "valid_numbers [VStr ''11999999999'', VStr ''11999999999'', VStr ''11988888888'']
        = [''11999999999'', ''11999999999'', ''11988888888'']"
    by (simp add: valid_numbers_def List.map_filter_simps char_class_defs)
  have e: "load_numbers_cells [VStr ''11999999999'', VStr ''11999999999'', VStr ''11988888888''] (Some 2)
        = [''11999999999'']"
    by (simp add: load_numbers_cells_def char_class_defs)
  from a b c d e show ?thesis by blast
qed

theorem load_numbers_cap_before_dedup_witness:
  "(0::int) < 3
   \<and> collect_numbers (Some 3)
        [VStr ''Telefones'', VStr ''(11) 99999-9999'', VNone, VOther ''11999999999'',
         VStr ''11 98888-8888'', VStr ''11977777777''] []
      = [''11999999999'', ''11999999999'', ''11988888888'']
   \<and> length (load_numbers_cells
        [VStr ''Telefones'', VStr ''(11) 99999-9999'', VNone, VOther ''11999999999'',
         VStr ''11 98888-8888'', VStr ''11977777777''] (Some 3)) \<le> 3
   \<and> collect_numbers (Some 0) [VStr ''(11) 99999-9999'', VStr ''x'', VStr ''11977777777''] []
      = [''11999999999'', ''11977777777'']"
  using load_numbers_cap_before_dedup [of 3
      "[VStr ''Telefones'', VStr ''(11) 99999-9999'', VNone, VOther ''11999999999'',
        VStr ''11 98888-8888'', VStr ''11977777777'']" "Some 0"]
    load_numbers_cap_before_dedup [of 3
      "[VStr ''(11) 99999-9999'', VStr ''x'', VStr ''11977777777'']" "Some 0"]
  by (simp add: valid_numbers_def List.map_filter_simps char_class_defs)

section \<open>The message provider\<close>

lemma lstrip_split: "s = takeWhile str_isspace s @ lstrip s"
  by (simp add: lstrip_def)

lemma rstrip_split: "s = rstrip s @ rev (takeWhile str_isspace (rev s))"
  by (simp only: rstrip_def rev_append [symmetric] takeWhile_dropWhile_id rev_rev_ident)

lemma strip_split:
  "s = takeWhile str_isspace s @ strip s @ rev (takeWhile str_isspace (rev (lstrip s)))"
  using lstrip_split [of s] rstrip_split [of "lstrip s"] by (simp add: strip_def)

lemma rstrip_last: "rstrip s \<noteq> [] \<Longrightarrow> \<not> str_isspace (last (rstrip s))"
  by (simp add: rstrip_def last_rev hd_dropWhile)

lemma lstrip_hd: "lstrip s \<noteq> [] \<Longrightarrow> \<not> str_isspace (hd (lstrip s))"
  by (simp add: lstrip_def hd_dropWhile)

lemma strip_hd:
  assumes "strip s \<noteq> []"
  shows "\<not> str_isspace (hd (strip s))"
proof -
  have "lstrip s = strip s @ rev (takeWhile str_isspace (rev (lstrip s)))"
    using rstrip_split [of "lstrip s"] by (simp add: strip_def)
  then have "hd (lstrip s) = hd (strip s)" "lstrip s \<noteq> []"
    using assms by (metis hd_append2, metis append_is_Nil_conv)
  then show ?thesis using lstrip_hd [of s] by simp
qed

lemma strip_ends:
  "\<exists>l r. s = l @ strip s @ r \<and> (\<forall>c\<in>set l. str_isspace c) \<and> (\<forall>c\<in>set r. str_isspace c)"
proof -
  have "\<forall>c\<in>set (takeWhile str_isspace s). str_isspace c"
    by (auto dest: set_takeWhileD)
  moreover have "\<forall>c\<in>set (rev (takeWhile str_isspace (rev (lstrip s)))). str_isspace c"
    by (auto dest: set_takeWhileD)
  ultimately show ?thesis using strip_split [of s] by blast
qed

text \<open>
  C8, as the spec states it, fails: the text of a message file is not kept up to its
  trailing whitespace. A file holding a space, \<open>Oi\<close> and a newline gives the message
  \<open>Oi\<close>: the leading space is removed as well.
\<close>

theorem load_message_drops_leading_space:
  "file_text env_padded_message ''mensagem.txt'' = Inr ('' Oi'' @ [CHR 0x0A])
   \<and> rstrip ('' Oi'' @ [CHR 0x0A]) = '' Oi''
   \<and> load_message env_padded_message (Some ''mensagem.txt'') = Inr ''Oi''
   \<and> load_message env_padded_message (Some ''mensagem.txt'')
       \<noteq> Inr (rstrip ('' Oi'' @ [CHR 0x0A]))"
  by (simp add: env_padded_message_def char_class_defs)

text \<open>
  C8, amended: with no file \<open>load_message\<close> returns \<open>DEFAULT_MESSAGE\<close> unchanged; with a
  file it returns the file's text without its leading and its trailing whitespace, and
  everything between is kept as it is: the text is some whitespace, the message, some
  whitespace, and a non-empty message neither starts nor ends with whitespace.
\<close>

theorem load_message_strips_both_ends:
  "load_message E None = Inr DEFAULT_MESSAGE
   \<and> (file_text E name = Inr t \<longrightarrow>
        load_message E (Some name) = Inr (strip t)
        \<and> (\<exists>l r. t = l @ strip t @ r
              \<and> (\<forall>c\<in>set l. str_isspace c) \<and> (\<forall>c\<in>set r. str_isspace c))
        \<and> (strip t \<noteq> [] \<longrightarrow>
              \<not> str_isspace (hd (strip t)) \<and> \<not> str_isspace (last (strip t))))"
  using strip_ends [of t] strip_hd [of t] rstrip_last [of "lstrip t"]
  by (simp add: strip_def)

theorem load_message_strips_both_ends_witness:
  "load_message env_padded_message None = Inr DEFAULT_MESSAGE
   \<and> file_text env_padded_message ''mensagem.txt'' = Inr ('' Oi'' @ [CHR 0x0A])
   \<and> load_message env_padded_message (Some ''mensagem.txt'') = Inr ''Oi''
   \<and> strip ('' Oi'' @ [CHR 0x0A]) = ''Oi''
   \<and> \<not> str_isspace (hd ''Oi'') \<and> \<not> str_isspace (last ''Oi'')"
proof -
  have t: "file_text env_padded_message ''mensagem.txt'' = Inr ('' Oi'' @ [CHR 0x0A])"
    by (simp add: env_padded_message_def)
  have s: "strip ('' Oi'' @ [CHR 0x0A]) = ''Oi''"
    by (simp add: char_class_defs)
  show ?thesis
    using load_message_strips_both_ends [of env_padded_message "''mensagem.txt''" "'' Oi'' @ [CHR 0x0A]"]
    unfolding s using t by simp
qed

section \<open>Statistics and reporting: the average\<close>

























section \<open>The send protocol\<close>

lemmas io_defs = return_def raise_def lift_def bind_def try_except_def try_finally_def
  perform_def logging_def time_sleep_def sleep_max_def time_time_def

lemma no_interrupts_outcome:
  "no_interrupts E \<Longrightarrow> outcome E tr c = Some e \<Longrightarrow> is_Exception e \<and> \<not> is_Sleep c"
  unfolding no_interrupts_def
  by (metis (mono_tags, lifting) option.simps(5))

lemma dismiss_alert_returns:
  assumes "no_interrupts E"
  shows "\<exists>alert. dismiss_alert E tr = (Inr (), tr @ alert)
     \<and> (alert = succeeded [Switch_to_alert, Alert_accept, Log Debug_alert]
        \<or> (\<exists>e. alert = [(Switch_to_alert, Some e)])
        \<or> (\<exists>e. alert = [(Switch_to_alert, None), (Alert_accept, Some e)]))"
proof (cases "outcome E tr Switch_to_alert")
  case (Some e)
  then show ?thesis using no_interrupts_outcome [OF assms Some]
    by (simp add: dismiss_alert_def io_defs)
next
  case None
  show ?thesis
  proof (cases "outcome E (tr @ [(Switch_to_alert, None)]) Alert_accept")
    case (Some e)
    then show ?thesis using None no_interrupts_outcome [OF assms Some]
      by (simp add: dismiss_alert_def io_defs)
  next
    case None': None
    then show ?thesis using None
      by (simp add: dismiss_alert_def io_defs succeeded_def)
  qed
qed

lemma send_message_finally_returns:
  assumes "no_interrupts E" "0 \<le> d" "d \<le> sleep_max"
  shows "\<exists>alert. send_message_finally E d tr = (Inr (), tr @ (Sleep d, None) # alert)
     \<and> (alert = succeeded [Switch_to_alert, Alert_accept, Log Debug_alert]
        \<or> (\<exists>e. alert = [(Switch_to_alert, Some e)])
        \<or> (\<exists>e. alert = [(Switch_to_alert, None), (Alert_accept, Some e)]))"
proof -
  have "outcome E tr (Sleep d) = None"
    using no_interrupts_outcome [OF assms(1), of tr "Sleep d"] by (cases "outcome E tr (Sleep d)") auto
  then have "send_message_finally E d tr = dismiss_alert E (tr @ [(Sleep d, None)])"
    using assms(2,3) by (simp add: send_message_finally_def time_sleep_def bind_def perform_def)
  then show ?thesis using dismiss_alert_returns [OF assms(1), of "tr @ [(Sleep d, None)]"]
    by auto
qed

lemma send_message_try_returns:
  assumes "no_interrupts E"
  shows "\<exists>sent evs. send_message_try E number message tr = (Inr sent, tr @ evs)
     \<and> (sent \<longrightarrow> evs = succeeded (send_steps number message @ [Log (Info_sent number)]))
     \<and> (\<not> sent \<longrightarrow> (\<exists>k e. k < 4 \<and> is_Exception e \<and>
           evs = succeeded (take k (send_steps number message)) @
                 [(send_steps number message ! k, Some e), (Log (Error_with number e), None)]))"
proof -
  let ?c0 = "Get (send_url number)"
  let ?steps = "send_steps number message"
  show ?thesis
  proof (cases "outcome E tr ?c0")
    case (Some e)
    have "send_message_try E number message tr = (Inr False, tr @ [(?c0, Some e), (Log (Error_with number e), None)])"
      using Some no_interrupts_outcome [OF assms Some] by (simp add: send_message_try_def io_defs)
    moreover have "[(?c0, Some e), (Log (Error_with number e), None)] = succeeded (take 0 ?steps) @ [(?steps ! 0, Some e), (Log (Error_with number e), None)]"
      by (simp add: succeeded_def send_steps_def)
    ultimately show ?thesis using no_interrupts_outcome [OF assms Some] by (metis zero_less_numeral)
  next
    case n0: None
    let ?t1 = "tr @ [(?c0, None)]"
    show ?thesis
    proof (cases "outcome E ?t1 Until_title")
      case (Some e)
      have "send_message_try E number message tr = (Inr False, tr @ [(?c0, None), (Until_title, Some e), (Log (Error_with number e), None)])"
        using n0 Some no_interrupts_outcome [OF assms Some] by (simp add: send_message_try_def io_defs)
      moreover have "[(?c0, None), (Until_title, Some e), (Log (Error_with number e), None)] = succeeded (take 1 ?steps) @ [(?steps ! 1, Some e), (Log (Error_with number e), None)]"
        by (simp add: succeeded_def send_steps_def)
      moreover have "(1::nat) < 4" by simp
      ultimately show ?thesis using no_interrupts_outcome [OF assms Some] by metis
    next
      case n1: None
      let ?t2 = "?t1 @ [(Until_title, None)]"
      show ?thesis
      proof (cases "outcome E ?t2 Until_message_box")
        case (Some e)
        have "send_message_try E number message tr = (Inr False, tr @ [(?c0, None), (Until_title, None), (Until_message_box, Some e), (Log (Error_with number e), None)])"
          using n0 n1 Some no_interrupts_outcome [OF assms Some] by (simp add: send_message_try_def io_defs)
        moreover have "[(?c0, None), (Until_title, None), (Until_message_box, Some e), (Log (Error_with number e), None)] = succeeded (take 2 ?steps) @ [(?steps ! 2, Some e), (Log (Error_with number e), None)]"
          by (simp add: succeeded_def send_steps_def)
        moreover have "(2::nat) < 4" by simp
        ultimately show ?thesis using no_interrupts_outcome [OF assms Some] by metis
      next
        case n2: None
        let ?t3 = "?t2 @ [(Until_message_box, None)]"
        show ?thesis
        proof (cases "outcome E ?t3 (Send_keys message)")
          case (Some e)
          have "send_message_try E number message tr = (Inr False, tr @ [(?c0, None), (Until_title, None), (Until_message_box, None), (Send_keys message, Some e), (Log (Error_with number e), None)])"
            using n0 n1 n2 Some no_interrupts_outcome [OF assms Some] by (simp add: send_message_try_def io_defs)
          moreover have "[(?c0, None), (Until_title, None), (Until_message_box, None), (Send_keys message, Some e), (Log (Error_with number e), None)] = succeeded (take 3 ?steps) @ [(?steps ! 3, Some e), (Log (Error_with number e), None)]"
            by (simp add: succeeded_def send_steps_def)
          moreover have "(3::nat) < 4" by simp
          ultimately show ?thesis using no_interrupts_outcome [OF assms Some] by metis
        next
          case n3: None
          have "send_message_try E number message tr = (Inr True, tr @ succeeded (?steps @ [Log (Info_sent number)]))"
            using n0 n1 n2 n3 by (simp add: send_message_try_def io_defs succeeded_def send_steps_def)
          then show ?thesis by blast
        qed
      qed
    qed
  qed
qed

lemma send_message_returns:
  assumes "no_interrupts E" "0 \<le> d" "d \<le> sleep_max"
  shows "\<exists>sent evs alert.
      send_message E number message d tr = (Inr sent, tr @ evs @ (Sleep d, None) # alert)
    \<and> (sent \<longrightarrow> evs = succeeded (send_steps number message @ [Log (Info_sent number)]))
    \<and> (\<not> sent \<longrightarrow> (\<exists>k e. k < 4 \<and> is_Exception e \<and>
           evs = succeeded (take k (send_steps number message)) @
                 [(send_steps number message ! k, Some e), (Log (Error_with number e), None)]))
    \<and> (alert = succeeded [Switch_to_alert, Alert_accept, Log Debug_alert]
        \<or> (\<exists>e. alert = [(Switch_to_alert, Some e)])
        \<or> (\<exists>e. alert = [(Switch_to_alert, None), (Alert_accept, Some e)]))"
proof -
  from send_message_try_returns [OF assms(1), of number message tr]
  obtain sent evs where
    t: "send_message_try E number message tr = (Inr sent, tr @ evs)"
    and s: "sent \<longrightarrow> evs = succeeded (send_steps number message @ [Log (Info_sent number)])"
    and f: "\<not> sent \<longrightarrow> (\<exists>k e. k < 4 \<and> is_Exception e \<and>
           evs = succeeded (take k (send_steps number message)) @
                 [(send_steps number message ! k, Some e), (Log (Error_with number e), None)])"
    by blast
  from send_message_finally_returns [OF assms, of "tr @ evs"]
  obtain alert where
    fin: "send_message_finally E d (tr @ evs) = (Inr (), (tr @ evs) @ (Sleep d, None) # alert)"
    and al: "alert = succeeded [Switch_to_alert, Alert_accept, Log Debug_alert]
        \<or> (\<exists>e. alert = [(Switch_to_alert, Some e)])
        \<or> (\<exists>e. alert = [(Switch_to_alert, None), (Alert_accept, Some e)])"
    by blast
  have "send_message E number message d tr = (Inr sent, tr @ evs @ (Sleep d, None) # alert)"
    using t fin by (simp add: send_message_def try_finally_def)
  with s f al show ?thesis by blast
qed

lemma navigations_append: "navigations (a @ b) = navigations a @ navigations b"
  by (simp add: navigations_def calls_def List.map_filter_def)

lemma navigations_Cons: "navigations ((c, r) # tr) = (case get_url c of None \<Rightarrow> navigations tr | Some u \<Rightarrow> u # navigations tr)"
  by (cases "get_url c") (simp_all add: navigations_def calls_def)

lemma navigations_Nil: "navigations [] = []"
  by (simp add: navigations_def calls_def)

lemma send_message_navigates_once:
  assumes "no_interrupts E" "0 \<le> d" "d \<le> sleep_max"
  shows "\<exists>sent evs. send_message E number message d tr = (Inr sent, tr @ evs)
     \<and> navigations evs = [send_url number]"
proof -
  from send_message_returns [OF assms, of number message tr]
  obtain sent evs alert where
    r: "send_message E number message d tr = (Inr sent, tr @ evs @ (Sleep d, None) # alert)"
    and s: "sent \<longrightarrow> evs = succeeded (send_steps number message @ [Log (Info_sent number)])"
    and f: "\<not> sent \<longrightarrow> (\<exists>k e. k < 4 \<and> is_Exception e \<and>
           evs = succeeded (take k (send_steps number message)) @
                 [(send_steps number message ! k, Some e), (Log (Error_with number e), None)])"
    and al: "alert = succeeded [Switch_to_alert, Alert_accept, Log Debug_alert]
        \<or> (\<exists>e. alert = [(Switch_to_alert, Some e)])
        \<or> (\<exists>e. alert = [(Switch_to_alert, None), (Alert_accept, Some e)])"
    by blast
  have na: "navigations alert = []"
    using al by (auto simp: succeeded_def navigations_Cons navigations_Nil)
  have ne: "navigations evs = [send_url number]"
  proof (cases sent)
    case True
    with s show ?thesis
      by (simp add: succeeded_def send_steps_def navigations_Cons navigations_Nil)
  next
    case False
    with f obtain k e where k: "k < 4" and
      e: "evs = succeeded (take k (send_steps number message)) @
                 [(send_steps number message ! k, Some e), (Log (Error_with number e), None)]"
      by blast
    from k have "k = 0 \<or> k = 1 \<or> k = 2 \<or> k = 3" by arith
    then show ?thesis unfolding e
      by (auto simp: succeeded_def send_steps_def navigations_Cons navigations_Nil navigations_append)
  qed
  have "navigations (evs @ (Sleep d, None) # alert) = [send_url number]"
    by (simp add: navigations_append navigations_Cons na ne)
  with r show ?thesis by blast
qed

lemma process_loop_returns:
  assumes "no_interrupts E" "0 \<le> d" "d \<le> sleep_max"
  shows "\<exists>evs sent.
      process_loop E ns message d s f tr =
        (Inr \<lparr>successful_numbers = s @ map fst (filter snd (zip ns sent)),
              failed_numbers = f @ map fst (filter (\<lambda>p. \<not> snd p) (zip ns sent))\<rparr>, tr @ evs)
    \<and> length sent = length ns
    \<and> navigations evs = map send_url ns"
proof (induction ns arbitrary: s f tr)
  case Nil
  show ?case by (simp add: return_def navigations_Nil)
next
  case (Cons n ns)
  from send_message_navigates_once [OF assms, of n message tr]
  obtain b evs where
    sm: "send_message E n message d tr = (Inr b, tr @ evs)" and nav: "navigations evs = [send_url n]"
    by blast
  show ?case
  proof (cases b)
    case True
    from Cons.IH [of "s @ [n]" f "tr @ evs"]
    obtain evs' sent where
      r: "process_loop E ns message d (s @ [n]) f (tr @ evs) =
        (Inr \<lparr>successful_numbers = (s @ [n]) @ map fst (filter snd (zip ns sent)),
              failed_numbers = f @ map fst (filter (\<lambda>p. \<not> snd p) (zip ns sent))\<rparr>, (tr @ evs) @ evs')"
      and l: "length sent = length ns" and n': "navigations evs' = map send_url ns"
      by blast
    have "process_loop E (n # ns) message d s f tr =
        (Inr \<lparr>successful_numbers = s @ map fst (filter snd (zip (n # ns) (True # sent))),
              failed_numbers = f @ map fst (filter (\<lambda>p. \<not> snd p) (zip (n # ns) (True # sent)))\<rparr>, tr @ (evs @ evs'))"
      using sm True r by (simp add: bind_def)
    moreover have "length (True # sent) = length (n # ns)" using l by simp
    moreover have "navigations (evs @ evs') = map send_url (n # ns)"
      using nav n' by (simp add: navigations_append)
    ultimately show ?thesis by blast
  next
    case False
    from Cons.IH [of s "f @ [n]" "tr @ evs"]
    obtain evs' sent where
      r: "process_loop E ns message d s (f @ [n]) (tr @ evs) =
        (Inr \<lparr>successful_numbers = s @ map fst (filter snd (zip ns sent)),
              failed_numbers = (f @ [n]) @ map fst (filter (\<lambda>p. \<not> snd p) (zip ns sent))\<rparr>, (tr @ evs) @ evs')"
      and l: "length sent = length ns" and n': "navigations evs' = map send_url ns"
      by blast
    have "process_loop E (n # ns) message d s f tr =
        (Inr \<lparr>successful_numbers = s @ map fst (filter snd (zip (n # ns) (False # sent))),
              failed_numbers = f @ map fst (filter (\<lambda>p. \<not> snd p) (zip (n # ns) (False # sent)))\<rparr>, tr @ (evs @ evs'))"
      using sm False r by (simp add: bind_def)
    moreover have "length (False # sent) = length (n # ns)" using l by simp
    moreover have "navigations (evs @ evs') = map send_url (n # ns)"
      using nav n' by (simp add: navigations_append)
    ultimately show ?thesis by blast
  qed
qed

lemma split_mset:
  "mset (map fst (filter snd zs)) + mset (map fst (filter (\<lambda>p. \<not> snd p) zs)) = mset (map fst zs)"
  by (induction zs) auto

lemma split_disjoint:
  "distinct (map fst zs) \<Longrightarrow>
     set (map fst (filter snd zs)) \<inter> set (map fst (filter (\<lambda>p. \<not> snd p) zs)) = {}"
  by (induction zs) force+

lemma split_subseq: "subseq (map fst (filter P zs)) (map fst zs)"
  by (simp add: subseq_map)

lemma send_message_negative_delay:
  "d < 0 \<Longrightarrow> fst (send_message E number message d tr) = Inl ValueError"
  by (simp add: send_message_def try_finally_def send_message_finally_def time_sleep_def
      raise_def bind_def split: prod.splits)

lemma no_interrupts_env_timeout: "no_interrupts env_timeout"
  by (simp add: no_interrupts_def env_timeout_def)

text \<open>
  C3, as the spec states it, fails: a delay of 10000000000 seconds is not negative, and
  \<open>time.sleep\<close> refuses it with \<open>OverflowError\<close>. The sleep is in the \<open>finally\<close> clause,
  outside the \<open>try\<close> that catches, so \<open>send_message\<close> raises after an attempt that
  succeeded, and the dialog is not dismissed.
\<close>

theorem send_message_raises_on_long_delay:
  "(0::real) \<le> 10000000000 \<and> no_interrupts env_timeout
   \<and> send_message env_timeout ''11111111111'' ''Oi'' 10000000000 [] =
       (Inl OverflowError,
        succeeded (send_steps ''11111111111'' ''Oi'' @ [Log (Info_sent ''11111111111'')]))"
proof -
  have "send_message env_timeout ''11111111111'' ''Oi'' 10000000000 [] =
       (Inl OverflowError,
        succeeded (send_steps ''11111111111'' ''Oi'' @ [Log (Info_sent ''11111111111'')]))"
    by (simp add: send_message_def send_message_try_def send_message_finally_def
        dismiss_alert_def io_defs Let_def calls_def env_timeout_def succeeded_def send_steps_def)
  then show ?thesis using no_interrupts_env_timeout by simp
qed

text \<open>
  C3, amended: when no call is interrupted (the calls that fail raise navigation errors,
  timeouts and the like, all subclasses of \<open>Exception\<close>) and \<open>time.sleep\<close> accepts the
  delay (it is not negative and at most \<open>sleep_max\<close>, about 9.2e9 seconds),
  \<open>send_message\<close> returns a boolean and raises nothing. It returns \<open>True\<close> after the
  four steps of the attempt succeeded and the success was logged; it returns \<open>False\<close>
  when one of the steps raised, after logging the number and the exception. In both
  cases the sleep follows, then the dismissal of a dialog, which also returns when there
  is no dialog or when accepting it fails.
\<close>

theorem send_message_never_raises:
  assumes "no_interrupts E" "0 \<le> d" "d \<le> sleep_max"
  shows "\<exists>sent evs alert.
      send_message E number message d tr = (Inr sent, tr @ evs @ (Sleep d, None) # alert)
    \<and> (sent \<longrightarrow> evs = succeeded (send_steps number message @ [Log (Info_sent number)]))
    \<and> (\<not> sent \<longrightarrow> (\<exists>k e. k < 4 \<and> is_Exception e \<and>
           evs = succeeded (take k (send_steps number message)) @
                 [(send_steps number message ! k, Some e), (Log (Error_with number e), None)]))
    \<and> (alert = succeeded [Switch_to_alert, Alert_accept, Log Debug_alert]
        \<or> (\<exists>e. alert = [(Switch_to_alert, Some e)])
        \<or> (\<exists>e. alert = [(Switch_to_alert, None), (Alert_accept, Some e)]))"
  using send_message_returns [OF assms] .

theorem send_message_never_raises_witness:
  "no_interrupts env_timeout \<and> (0::real) \<le> 5 \<and> (5::real) \<le> sleep_max
   \<and> (\<exists>evs alert.
        send_message env_timeout ''11111111111'' ''Oi'' 5 [] = (Inr True, evs @ (Sleep 5, None) # alert)
        \<and> evs = succeeded (send_steps ''11111111111'' ''Oi'' @ [Log (Info_sent ''11111111111'')]))
   \<and> (\<exists>evs alert k e.
        send_message env_timeout ''22222222222'' ''Oi'' 5 (succeeded [Until_message_box])
          = (Inr False, succeeded [Until_message_box] @ evs @ (Sleep 5, None) # alert)
        \<and> k < 4 \<and> is_Exception e
        \<and> evs = succeeded (take k (send_steps ''22222222222'' ''Oi'')) @
                [(send_steps ''22222222222'' ''Oi'' ! k, Some e),
                 (Log (Error_with ''22222222222'' e), None)])"
proof -
  have h: "no_interrupts env_timeout" "(0::real) \<le> 5" "(5::real) \<le> sleep_max"
    by (simp_all add: no_interrupts_env_timeout sleep_max_def)
  have v1: "fst (send_message env_timeout ''11111111111'' ''Oi'' 5 []) = Inr True"
    by (simp add: send_message_def send_message_try_def send_message_finally_def
        dismiss_alert_def io_defs Let_def calls_def env_timeout_def)
  have v2: "fst (send_message env_timeout ''22222222222'' ''Oi'' 5 (succeeded [Until_message_box]))
      = Inr False"
    by (simp add: send_message_def send_message_try_def send_message_finally_def
        dismiss_alert_def io_defs Let_def calls_def env_timeout_def succeeded_def)
  from send_message_never_raises [OF h, of "''11111111111''" "''Oi''" "[]"]
  obtain sent1 evs1 alert1 where
    r1: "send_message env_timeout ''11111111111'' ''Oi'' 5 []
          = (Inr sent1, [] @ evs1 @ (Sleep 5, None) # alert1)"
    and s1: "sent1 \<longrightarrow>
        evs1 = succeeded (send_steps ''11111111111'' ''Oi'' @ [Log (Info_sent ''11111111111'')])"
    by blast
  from r1 v1 have t1: "sent1" by simp
  from send_message_never_raises [OF h, of "''22222222222''" "''Oi''" "succeeded [Until_message_box]"]
  obtain sent2 evs2 alert2 where
    r2: "send_message env_timeout ''22222222222'' ''Oi'' 5 (succeeded [Until_message_box])
          = (Inr sent2, succeeded [Until_message_box] @ evs2 @ (Sleep 5, None) # alert2)"
    and f2: "\<not> sent2 \<longrightarrow> (\<exists>k e. k < 4 \<and> is_Exception e \<and>
              evs2 = succeeded (take k (send_steps ''22222222222'' ''Oi'')) @
                [(send_steps ''22222222222'' ''Oi'' ! k, Some e),
                 (Log (Error_with ''22222222222'' e), None)])"
    by blast
  from r2 v2 have t2: "\<not> sent2" by simp
  have a: "\<exists>evs alert.
        send_message env_timeout ''11111111111'' ''Oi'' 5 [] = (Inr True, evs @ (Sleep 5, None) # alert)
        \<and> evs = succeeded (send_steps ''11111111111'' ''Oi'' @ [Log (Info_sent ''11111111111'')])"
  proof -
    from r1 t1 have "send_message env_timeout ''11111111111'' ''Oi'' 5 []
          = (Inr True, evs1 @ (Sleep 5, None) # alert1)"
      by simp
    with s1 t1 show ?thesis by blast
  qed
  have b: "\<exists>evs alert k e.
        send_message env_timeout ''22222222222'' ''Oi'' 5 (succeeded [Until_message_box])
          = (Inr False, succeeded [Until_message_box] @ evs @ (Sleep 5, None) # alert)
        \<and> k < 4 \<and> is_Exception e
        \<and> evs = succeeded (take k (send_steps ''22222222222'' ''Oi'')) @
                [(send_steps ''22222222222'' ''Oi'' ! k, Some e),
                 (Log (Error_with ''22222222222'' e), None)]"
  proof -
    from r2 t2 have r2': "send_message env_timeout ''22222222222'' ''Oi'' 5 (succeeded [Until_message_box])
          = (Inr False, succeeded [Until_message_box] @ evs2 @ (Sleep 5, None) # alert2)"
      by simp
    from f2 t2 obtain k e where "k < 4" "is_Exception e"
      "evs2 = succeeded (take k (send_steps ''22222222222'' ''Oi'')) @
                [(send_steps ''22222222222'' ''Oi'' ! k, Some e),
                 (Log (Error_with ''22222222222'' e), None)]"
      by blast
    with r2' show ?thesis by blast
  qed
  from h a b show ?thesis by blast
qed

section \<open>Events of a run\<close>

lemma appends_return: "appends P (return x)"
  by (simp add: appends_def return_def)

lemma appends_raise: "appends P (raise e)"
  by (simp add: appends_def raise_def)

lemma appends_lift: "appends P (lift r)"
  by (simp add: appends_def lift_def)

lemma appends_time_time: "appends P (time_time E)"
  by (simp add: appends_def time_time_def)

lemma appends_logging: "P (Log r, None) \<Longrightarrow> appends P (logging r)"
  by (simp add: appends_def logging_def)

lemma appends_perform: "(\<And>r. P (c, r)) \<Longrightarrow> appends P (perform E c)"
  by (simp add: appends_def perform_def Let_def)

lemma appends_bind:
  assumes "appends P m" "\<And>x. appends P (f x)"
  shows "appends P (bind m f)"
  unfolding appends_def
proof
  fix tr
  from assms(1) obtain evs where m: "snd (m tr) = tr @ evs" "list_all P evs"
    unfolding appends_def by blast
  show "\<exists>evs. snd (bind m f tr) = tr @ evs \<and> list_all P evs"
  proof (cases "fst (m tr)")
    case (Inl e)
    then have "bind m f tr = (Inl e, tr @ evs)" using m(1)
      by (cases "m tr") (simp add: bind_def)
    then show ?thesis using m(2) by simp
  next
    case (Inr x)
    from assms(2) [of x] obtain evs' where
      f: "snd (f x (tr @ evs)) = (tr @ evs) @ evs'" "list_all P evs'"
      unfolding appends_def by blast
    have "bind m f tr = f x (tr @ evs)" using Inr m(1)
      by (cases "m tr") (simp add: bind_def)
    then have "snd (bind m f tr) = tr @ (evs @ evs')" using f(1) by simp
    then show ?thesis using m(2) f(2) by (metis list_all_append)
  qed
qed

lemma appends_try_except:
  assumes "appends P m" "\<And>e. appends P (h e)"
  shows "appends P (try_except m h)"
  unfolding appends_def
proof
  fix tr
  from assms(1) obtain evs where m: "snd (m tr) = tr @ evs" "list_all P evs"
    unfolding appends_def by blast
  show "\<exists>evs. snd (try_except m h tr) = tr @ evs \<and> list_all P evs"
  proof (cases "fst (m tr)")
    case (Inr x)
    then have "try_except m h tr = (Inr x, tr @ evs)" using m(1)
      by (cases "m tr") (simp add: try_except_def)
    then show ?thesis using m(2) by simp
  next
    case (Inl e)
    show ?thesis
    proof (cases "is_Exception e")
      case False
      then have "try_except m h tr = (Inl e, tr @ evs)" using m(1) Inl
        by (cases "m tr") (simp add: try_except_def)
      then show ?thesis using m(2) by simp
    next
      case True
      from assms(2) [of e] obtain evs' where
        f: "snd (h e (tr @ evs)) = (tr @ evs) @ evs'" "list_all P evs'"
        unfolding appends_def by blast
      have "try_except m h tr = h e (tr @ evs)" using Inl True m(1)
        by (cases "m tr") (simp add: try_except_def)
      then have "snd (try_except m h tr) = tr @ (evs @ evs')" using f(1) by simp
      then show ?thesis using m(2) f(2) by (metis list_all_append)
    qed
  qed
qed

lemma appends_try_finally:
  assumes "appends P m" "appends P fin"
  shows "appends P (try_finally m fin)"
  unfolding appends_def
proof
  fix tr
  from assms(1) obtain evs where m: "snd (m tr) = tr @ evs" "list_all P evs"
    unfolding appends_def by blast
  from assms(2) obtain evs' where
    f: "snd (fin (tr @ evs)) = (tr @ evs) @ evs'" "list_all P evs'"
    unfolding appends_def by blast
  have "snd (try_finally m fin tr) = tr @ (evs @ evs')"
    using m(1) f(1)
    by (cases "m tr"; cases "fin (tr @ evs)") (auto simp: try_finally_def split: sum.splits)
  then show "\<exists>evs. snd (try_finally m fin tr) = tr @ evs \<and> list_all P evs"
    using m(2) f(2) by (metis list_all_append)
qed

lemmas appends_intros = appends_return appends_raise appends_lift appends_time_time
  appends_logging appends_perform appends_bind appends_try_except appends_try_finally

lemma inside_session_pair: "inside_session (c, r) = (c \<noteq> Quit \<and> c \<noteq> Maximize_window)"
  by (simp add: inside_session_def)

lemma appends_send_message: "appends inside_session (send_message E number message d)"
  unfolding send_message_def send_message_try_def send_message_finally_def dismiss_alert_def
    time_sleep_def
  by (auto intro!: appends_intros simp: inside_session_pair)

lemma appends_process_loop: "appends inside_session (process_loop E ns message d s f)"
  by (induction ns arbitrary: s f)
     (auto intro!: appends_intros appends_send_message simp: inside_session_pair)

lemma appends_send_report: "appends inside_session (send_report E ns message d)"
  by (induction ns)
     (auto intro!: appends_intros appends_send_message simp: inside_session_pair split: option.splits)

lemma appends_main_try: "appends inside_session (main_try E a numbers message start)"
  unfolding main_try_def process_numbers_def
  by (auto intro!: appends_intros appends_process_loop appends_send_report simp: inside_session_pair)

lemma no_report_warning_pair: "no_report_warning (c, r) = (warned_recipient c = None)"
  by (simp add: no_report_warning_def)

lemma send_message_no_report_warning: "appends no_report_warning (send_message E number message d)"
  unfolding send_message_def send_message_try_def send_message_finally_def dismiss_alert_def
    time_sleep_def
  by (auto intro!: appends_intros simp: no_report_warning_pair)

lemma report_warnings_none: "list_all no_report_warning evs \<Longrightarrow> report_warnings evs = []"
  by (induction evs) (auto simp: report_warnings_def calls_def no_report_warning_def)

lemma report_warnings_append: "report_warnings (a @ b) = report_warnings a @ report_warnings b"
  by (simp add: report_warnings_def calls_def List.map_filter_def)

lemma send_report_returns:
  assumes "no_interrupts E" "0 \<le> d" "d \<le> sleep_max"
  shows "\<exists>evs. send_report E ns message d tr = (Inr (), tr @ evs)
    \<and> navigations evs = map send_url (List.map_filter (\<lambda>n. normalize_phone (VStr n)) ns)
    \<and> report_warnings evs = filter (\<lambda>n. normalize_phone (VStr n) = None) ns"
proof (induction ns arbitrary: tr)
  case Nil
  show ?case by (simp add: return_def navigations_Nil report_warnings_def calls_def)
next
  case (Cons n ns)
  show ?case
  proof (cases "normalize_phone (VStr n)")
    case None
    let ?w = "[(Log (Warning_report_invalid n), None)]"
    from Cons.IH [of "tr @ ?w"] obtain evs where
      r: "send_report E ns message d (tr @ ?w) = (Inr (), (tr @ ?w) @ evs)"
      and nav: "navigations evs = map send_url (List.map_filter (\<lambda>n. normalize_phone (VStr n)) ns)"
      and w: "report_warnings evs = filter (\<lambda>n. normalize_phone (VStr n) = None) ns"
      by blast
    have "send_report E (n # ns) message d tr = (Inr (), tr @ (?w @ evs))"
      using None r by (simp add: bind_def logging_def del: normalize_phone.simps)
    moreover have "navigations (?w @ evs) = map send_url (List.map_filter (\<lambda>n. normalize_phone (VStr n)) (n # ns))"
      using None nav by (simp add: navigations_Cons del: normalize_phone.simps)
    moreover have "report_warnings (?w @ evs) = filter (\<lambda>n. normalize_phone (VStr n) = None) (n # ns)"
      using None w report_warnings_append [of ?w evs]
      by (simp add: report_warnings_def calls_def del: normalize_phone.simps)
    ultimately show ?thesis by blast
  next
    case (Some normalized)
    from send_message_navigates_once [OF assms, of normalized message tr]
    obtain b evs where
      sm: "send_message E normalized message d tr = (Inr b, tr @ evs)"
      and nav: "navigations evs = [send_url normalized]"
      by blast
    from send_message_no_report_warning [of E normalized message d]
    obtain evs0 where "snd (send_message E normalized message d tr) = tr @ evs0"
      "list_all no_report_warning evs0"
      unfolding appends_def by blast
    with sm have nw: "report_warnings evs = []"
      using report_warnings_none by simp
    from Cons.IH [of "tr @ evs"] obtain evs' where
      r: "send_report E ns message d (tr @ evs) = (Inr (), (tr @ evs) @ evs')"
      and nav': "navigations evs' = map send_url (List.map_filter (\<lambda>n. normalize_phone (VStr n)) ns)"
      and w: "report_warnings evs' = filter (\<lambda>n. normalize_phone (VStr n) = None) ns"
      by blast
    have "send_report E (n # ns) message d tr = (Inr (), tr @ (evs @ evs'))"
      using Some sm r by (simp add: bind_def del: normalize_phone.simps)
    moreover have "navigations (evs @ evs') = map send_url (List.map_filter (\<lambda>n. normalize_phone (VStr n)) (n # ns))"
      using Some nav nav' by (simp add: navigations_append del: normalize_phone.simps)
    moreover have "report_warnings (evs @ evs') = filter (\<lambda>n. normalize_phone (VStr n) = None) (n # ns)"
      using Some nw w by (simp add: report_warnings_append del: normalize_phone.simps)
    ultimately show ?thesis by blast
  qed
qed

lemma send_report_all_invalid:
  "\<forall>n\<in>set ns. normalize_phone (VStr n) = None \<Longrightarrow>
     send_report E ns message d tr =
       (Inr (), tr @ succeeded (map (\<lambda>n. Log (Warning_report_invalid n)) ns))"
proof (induction ns arbitrary: tr)
  case Nil
  show ?case by (simp add: return_def succeeded_def)
next
  case (Cons n ns)
  then have "normalize_phone (VStr n) = None" by simp
  then show ?case using Cons
    by (simp add: bind_def logging_def succeeded_def del: normalize_phone.simps)
qed

lemma bind_Inr:
  "bind m f tr = (Inr y, tr') \<Longrightarrow> \<exists>x tr1. m tr = (Inr x, tr1) \<and> f x tr1 = (Inr y, tr')"
  by (cases "m tr") (auto simp: bind_def split: sum.splits)

lemma main_try_keeps_stats:
  assumes "main_try E a numbers message start tr = (Inr stats, tr')"
  shows "\<exists>tr1. process_numbers E numbers message (delay a) tr = (Inr stats, tr1)"
proof -
  from assms obtain s1 t1 where p: "process_numbers E numbers message (delay a) tr = (Inr s1, t1)"
    and rest: "bind (time_time E) (\<lambda>now.
     bind (lift (build_report E s1 (now - start))) (\<lambda>report_message.
     bind (logging (Info_summary report_message)) (\<lambda>_.
     bind (send_report E (report_numbers a) report_message (delay a)) (\<lambda>_.
     bind (perform E (Print report_message)) (\<lambda>_.
     return s1))))) t1 = (Inr stats, tr')"
    unfolding main_try_def by (blast dest: bind_Inr)
  from rest have "s1 = stats"
    by (auto dest!: bind_Inr simp: return_def)
  with p show ?thesis by blast
qed

section \<open>The run orchestrator\<close>

lemma process_numbers_env_timeout:
  "process_numbers env_timeout [''11111111111'', ''22222222222''] ''Oi'' 5 [] =
     (Inr \<lparr>successful_numbers = [''11111111111''], failed_numbers = [''22222222222'']\<rparr>,
      [(Get (send_url ''11111111111''), None), (Until_title, None), (Until_message_box, None),
       (Send_keys ''Oi'', None), (Log (Info_sent ''11111111111''), None), (Sleep 5, None),
       (Switch_to_alert, Some NoAlertPresentException),
       (Get (send_url ''22222222222''), None), (Until_title, None),
       (Until_message_box, Some TimeoutException),
       (Log (Error_with ''22222222222'' TimeoutException), None), (Sleep 5, None),
       (Switch_to_alert, Some NoAlertPresentException)])"
  by (simp add: process_numbers_def send_message_def send_message_try_def send_message_finally_def
      dismiss_alert_def io_defs Let_def calls_def env_timeout_def)

lemma no_navigation_pair: "no_navigation (c, r) = (get_url c = None)"
  by (simp add: no_navigation_def)

lemma navigations_none: "list_all no_navigation evs \<Longrightarrow> navigations evs = []"
  by (induction evs) (auto simp: navigations_def calls_def no_navigation_def)

lemma try_except_perform:
  "try_except (bind (perform E c) k) h tr =
     (case outcome E tr c of
        None \<Rightarrow> try_except (k ()) h (tr @ [(c, None)])
      | Some e \<Rightarrow> if is_Exception e then h e (tr @ [(c, Some e)]) else (Inl e, tr @ [(c, Some e)]))"
  by (simp add: try_except_def bind_def perform_def Let_def split: option.splits)

lemma send_message_try_navigates:
  "\<exists>evs. snd (send_message_try E number message tr) = tr @ evs
     \<and> navigations evs = [send_url number]"
proof -
  let ?g = "Get (send_url number)"
  let ?rest = "try_except
       (bind (perform E Until_title) (\<lambda>_.
        bind (perform E Until_message_box) (\<lambda>_.
        bind (perform E (Send_keys message)) (\<lambda>_.
        bind (logging (Info_sent number)) (\<lambda>_.
        return True)))))
       (\<lambda>exc. bind (logging (Error_with number exc)) (\<lambda>_. return False))"
  have rest: "appends no_navigation ?rest"
    by (auto intro!: appends_intros simp: no_navigation_pair)
  have handler: "appends no_navigation (bind (logging (Error_with number e)) (\<lambda>_. return False))" for e
    by (auto intro!: appends_intros simp: no_navigation_pair)
  have "\<exists>evs. snd (send_message_try E number message tr) = (tr @ [(?g, outcome E tr ?g)]) @ evs
      \<and> list_all no_navigation evs"
  proof (cases "outcome E tr ?g")
    case None
    then have "send_message_try E number message tr = ?rest (tr @ [(?g, None)])"
      unfolding send_message_try_def try_except_perform by simp
    moreover from rest obtain evs where
      "snd (?rest (tr @ [(?g, None)])) = (tr @ [(?g, None)]) @ evs" "list_all no_navigation evs"
      unfolding appends_def by blast
    ultimately show ?thesis using None by auto
  next
    case (Some e)
    show ?thesis
    proof (cases "is_Exception e")
      case True
      then have "send_message_try E number message tr =
          bind (logging (Error_with number e)) (\<lambda>_. return False) (tr @ [(?g, Some e)])"
        unfolding send_message_try_def try_except_perform using Some by simp
      moreover from handler [of e] obtain evs where
        "snd (bind (logging (Error_with number e)) (\<lambda>_. return False) (tr @ [(?g, Some e)]))
           = (tr @ [(?g, Some e)]) @ evs" "list_all no_navigation evs"
        unfolding appends_def by blast
      ultimately show ?thesis using Some by auto
    next
      case False
      then have "send_message_try E number message tr = (Inl e, tr @ [(?g, Some e)])"
        unfolding send_message_try_def try_except_perform using Some by simp
      then show ?thesis using Some by simp
    qed
  qed
  then obtain evs where e: "snd (send_message_try E number message tr) = tr @ ((?g, outcome E tr ?g) # evs)"
    and n: "list_all no_navigation evs"
    by auto
  have "navigations ((?g, outcome E tr ?g) # evs) = [send_url number]"
    using navigations_none [OF n] by (simp add: navigations_Cons)
  with e show ?thesis by blast
qed

lemma send_message_finally_no_navigation: "appends no_navigation (send_message_finally E d)"
  unfolding send_message_finally_def dismiss_alert_def time_sleep_def
  by (auto intro!: appends_intros simp: no_navigation_pair)

lemma send_message_navigates:
  "\<exists>evs. snd (send_message E number message d tr) = tr @ evs
     \<and> navigations evs = [send_url number]"
proof -
  from send_message_try_navigates [of E number message tr]
  obtain evs where t: "snd (send_message_try E number message tr) = tr @ evs"
    and n: "navigations evs = [send_url number]"
    by blast
  from send_message_finally_no_navigation [of E d]
  obtain evs' where f: "snd (send_message_finally E d (tr @ evs)) = (tr @ evs) @ evs'"
    and n': "list_all no_navigation evs'"
    unfolding appends_def by blast
  have "snd (send_message E number message d tr) = tr @ (evs @ evs')"
    using t f unfolding send_message_def
    by (cases "send_message_try E number message tr"; cases "send_message_finally E d (tr @ evs)")
       (auto simp: try_finally_def split: sum.splits)
  moreover have "navigations (evs @ evs') = [send_url number]"
    using n navigations_none [OF n'] by (simp add: navigations_append)
  ultimately show ?thesis by blast
qed

lemma process_loop_split:
  "process_loop E ns message d s f tr = (Inr stats, tr') \<Longrightarrow>
     \<exists>evs sent. tr' = tr @ evs
       \<and> length sent = length ns
       \<and> successful_numbers stats = s @ map fst (filter snd (zip ns sent))
       \<and> failed_numbers stats = f @ map fst (filter (\<lambda>p. \<not> snd p) (zip ns sent))
       \<and> navigations evs = map send_url ns"
proof (induction ns arbitrary: s f tr)
  case Nil
  then show ?case by (auto simp: return_def navigations_Nil)
next
  case (Cons n ns)
  from Cons.prems obtain b tr1 where
    sm: "send_message E n message d tr = (Inr b, tr1)"
    and rest: "(if b then process_loop E ns message d (s @ [n]) f
                else process_loop E ns message d s (f @ [n])) tr1 = (Inr stats, tr')"
    by (auto dest!: bind_Inr)
  from send_message_navigates [of E n message d tr] sm
  obtain evs where tr1: "tr1 = tr @ evs" and nav: "navigations evs = [send_url n]"
    by auto
  show ?case
  proof (cases b)
    case True
    with rest have "process_loop E ns message d (s @ [n]) f tr1 = (Inr stats, tr')" by simp
    from Cons.IH [OF this] obtain evs' sent where
      r: "tr' = tr1 @ evs'" "length sent = length ns"
      "successful_numbers stats = (s @ [n]) @ map fst (filter snd (zip ns sent))"
      "failed_numbers stats = f @ map fst (filter (\<lambda>p. \<not> snd p) (zip ns sent))"
      "navigations evs' = map send_url ns"
      by blast
    have "tr' = tr @ (evs @ evs')" using r(1) tr1 by simp
    moreover have "length (True # sent) = length (n # ns)" using r(2) by simp
    moreover have "successful_numbers stats = s @ map fst (filter snd (zip (n # ns) (True # sent)))"
      using r(3) by simp
    moreover have "failed_numbers stats = f @ map fst (filter (\<lambda>p. \<not> snd p) (zip (n # ns) (True # sent)))"
      using r(4) by simp
    moreover have "navigations (evs @ evs') = map send_url (n # ns)"
      using nav r(5) by (simp add: navigations_append)
    ultimately show ?thesis by blast
  next
    case False
    with rest have "process_loop E ns message d s (f @ [n]) tr1 = (Inr stats, tr')" by simp
    from Cons.IH [OF this] obtain evs' sent where
      r: "tr' = tr1 @ evs'" "length sent = length ns"
      "successful_numbers stats = s @ map fst (filter snd (zip ns sent))"
      "failed_numbers stats = (f @ [n]) @ map fst (filter (\<lambda>p. \<not> snd p) (zip ns sent))"
      "navigations evs' = map send_url ns"
      by blast
    have "tr' = tr @ (evs @ evs')" using r(1) tr1 by simp
    moreover have "length (False # sent) = length (n # ns)" using r(2) by simp
    moreover have "successful_numbers stats = s @ map fst (filter snd (zip (n # ns) (False # sent)))"
      using r(3) by simp
    moreover have "failed_numbers stats = f @ map fst (filter (\<lambda>p. \<not> snd p) (zip (n # ns) (False # sent)))"
      using r(4) by simp
    moreover have "navigations (evs @ evs') = map send_url (n # ns)"
      using nav r(5) by (simp add: navigations_append)
    ultimately show ?thesis by blast
  qed
qed

lemma process_numbers_returns:
  assumes "no_interrupts E" "0 \<le> d" "d \<le> sleep_max"
  shows "\<exists>stats tr'. process_numbers E numbers message d tr = (Inr stats, tr')"
  using process_loop_returns [OF assms, of numbers message "[]" "[]" tr]
  unfolding process_numbers_def by blast

text \<open>
  C1: \<open>process_numbers\<close> returns statistics when no call is interrupted and
  \<open>time.sleep\<close> accepts the delay. Whenever it returns, in whatever environment and
  with whatever delay, it has navigated once for each input number, in input order, and
  the statistics split the input by the results of the sends: \<open>successful\<close> holds the
  entries whose send returned \<open>True\<close> and \<open>failed\<close> the others, each in processing
  order, so every entry of the input is in exactly one of the two lists (as multisets they
  add up to the input) and the lengths add up to the length of the input. When the input
  has no duplicates, as the number source guarantees, no number is in both lists.
\<close>

theorem process_numbers_partitions_input:
  "(no_interrupts E \<and> 0 \<le> d \<and> d \<le> sleep_max \<longrightarrow>
      (\<exists>stats tr'. process_numbers E numbers message d tr = (Inr stats, tr')))
   \<and> (process_numbers E numbers message d tr = (Inr stats, tr') \<longrightarrow>
      (\<exists>evs sent. tr' = tr @ evs
        \<and> navigations evs = map send_url numbers
        \<and> length sent = length numbers
        \<and> successful_numbers stats = map fst (filter snd (zip numbers sent))
        \<and> failed_numbers stats = map fst (filter (\<lambda>p. \<not> snd p) (zip numbers sent))
        \<and> mset (successful_numbers stats) + mset (failed_numbers stats) = mset numbers
        \<and> subseq (successful_numbers stats) numbers
        \<and> subseq (failed_numbers stats) numbers
        \<and> length (successful_numbers stats) + length (failed_numbers stats) = length numbers
        \<and> (distinct numbers \<longrightarrow>
              set (successful_numbers stats) \<inter> set (failed_numbers stats) = {})))"
proof -
  have split: "\<exists>evs sent. tr' = tr @ evs
        \<and> navigations evs = map send_url numbers
        \<and> length sent = length numbers
        \<and> successful_numbers stats = map fst (filter snd (zip numbers sent))
        \<and> failed_numbers stats = map fst (filter (\<lambda>p. \<not> snd p) (zip numbers sent))
        \<and> mset (successful_numbers stats) + mset (failed_numbers stats) = mset numbers
        \<and> subseq (successful_numbers stats) numbers
        \<and> subseq (failed_numbers stats) numbers
        \<and> length (successful_numbers stats) + length (failed_numbers stats) = length numbers
        \<and> (distinct numbers \<longrightarrow>
              set (successful_numbers stats) \<inter> set (failed_numbers stats) = {})"
    if r: "process_numbers E numbers message d tr = (Inr stats, tr')"
  proof -
    from process_loop_split [of E numbers message d "[]" "[]" tr stats tr'] r
    obtain evs sent where
      t: "tr' = tr @ evs" and l: "length sent = length numbers"
      and f1: "successful_numbers stats = map fst (filter snd (zip numbers sent))"
      and f2: "failed_numbers stats = map fst (filter (\<lambda>p. \<not> snd p) (zip numbers sent))"
      and n: "navigations evs = map send_url numbers"
      by (auto simp: process_numbers_def)
    let ?zs = "zip numbers sent"
    have z: "map fst ?zs = numbers" using l by simp
    have m: "mset (successful_numbers stats) + mset (failed_numbers stats) = mset numbers"
      using split_mset [of ?zs] z f1 f2 by simp
    have s1: "subseq (successful_numbers stats) numbers"
      using split_subseq [of snd ?zs] z f1 by simp
    have s2: "subseq (failed_numbers stats) numbers"
      using split_subseq [of "\<lambda>p. \<not> snd p" ?zs] z f2 by simp
    have len: "length (successful_numbers stats) + length (failed_numbers stats) = length numbers"
      using m by (metis size_mset size_union)
    have dis: "distinct numbers \<longrightarrow> set (successful_numbers stats) \<inter> set (failed_numbers stats) = {}"
      using split_disjoint [of ?zs] z f1 f2 by simp
    from t n l f1 f2 m s1 s2 len dis show ?thesis by blast
  qed
  from split process_numbers_returns [of E d numbers message tr] show ?thesis by blast
qed

theorem process_numbers_partitions_input_witness:
  "no_interrupts env_timeout \<and> (0::real) \<le> 5 \<and> (5::real) \<le> sleep_max
   \<and> distinct [''11111111111'', ''22222222222'']
   \<and> (\<exists>stats evs.
        process_numbers env_timeout [''11111111111'', ''22222222222''] ''Oi'' 5 [] = (Inr stats, evs)
        \<and> stats = \<lparr>successful_numbers = [''11111111111''], failed_numbers = [''22222222222'']\<rparr>
        \<and> navigations evs = map send_url [''11111111111'', ''22222222222'']
        \<and> mset (successful_numbers stats) + mset (failed_numbers stats)
            = mset [''11111111111'', ''22222222222'']
        \<and> set (successful_numbers stats) \<inter> set (failed_numbers stats) = {})"
proof -
  let ?numbers = "[''11111111111'', ''22222222222'']"
  let ?stats = "\<lparr>successful_numbers = [''11111111111''], failed_numbers = [''22222222222'']\<rparr>"
  let ?run = "process_numbers env_timeout ?numbers ''Oi'' 5 []"
  have h: "no_interrupts env_timeout \<and> (0::real) \<le> 5 \<and> (5::real) \<le> sleep_max"
    by (simp add: no_interrupts_env_timeout sleep_max_def)
  have d: "distinct ?numbers" by simp
  have r: "?run = (Inr ?stats, snd ?run)"
    unfolding process_numbers_env_timeout by simp
  note t = process_numbers_partitions_input
    [of env_timeout 5 ?numbers "''Oi''" "[]" ?stats "snd ?run"]
  from t h have "\<exists>stats tr'. ?run = (Inr stats, tr')" by blast
  from t r d obtain evs where
    e: "snd ?run = [] @ evs"
    and n: "navigations evs = map send_url ?numbers"
    and m: "mset (successful_numbers ?stats) + mset (failed_numbers ?stats) = mset ?numbers"
    and i: "set (successful_numbers ?stats) \<inter> set (failed_numbers ?stats) = {}"
    by blast
  from e r have "?run = (Inr ?stats, evs)" by simp
  with n m i have "\<exists>stats evs. ?run = (Inr stats, evs) \<and> stats = ?stats
        \<and> navigations evs = map send_url ?numbers
        \<and> mset (successful_numbers stats) + mset (failed_numbers stats) = mset ?numbers
        \<and> set (successful_numbers stats) \<inter> set (failed_numbers stats) = {}"
    by blast
  with h d show ?thesis by blast
qed

section \<open>Report dispatch\<close>

lemmas run_defs = main_def main_args_def main_try_def parse_args_def default_args_def
  load_numbers_def load_numbers_cells_def build_browser_def process_numbers_def
  send_message_def send_message_try_def send_message_finally_def dismiss_alert_def io_defs
  Let_def char_class_defs calls_def send_url_def

lemma main_try_env_timeout:
  "fst (main_try env_timeout default_args [''11111111111'', ''22222222222''] ''Oi'' 0 [])
     = Inr \<lparr>successful_numbers = [''11111111111''], failed_numbers = [''22222222222'']\<rparr>"
  by (simp add: run_defs env_timeout_def build_report_def tempo_medio_def truediv_def total_def
      format_duration_def time_gmtime_def)

text \<open>
  C7: a report recipient that does not normalize to a non-empty digit string gets a
  warning in the log and nothing else: \<open>send_report\<close> goes on with the next recipient, and
  a list of such recipients produces the warnings only. When no call is interrupted and
  the delay is not negative, the browser is sent to the valid recipients, in order, and to
  no other address, and the warnings name the invalid ones. The statistics of the run are
  out of reach of the dispatch: at the end of the \<open>try\<close> block they are what
  \<open>process_numbers\<close> returned.
\<close>

theorem send_report_skips_invalid:
  "(normalize_phone (VStr n) = None \<longrightarrow>
      send_report E (n # ns) message d tr =
        send_report E ns message d (tr @ [(Log (Warning_report_invalid n), None)]))
   \<and> ((\<forall>n\<in>set ns. normalize_phone (VStr n) = None) \<longrightarrow>
      send_report E ns message d tr =
        (Inr (), tr @ succeeded (map (\<lambda>n. Log (Warning_report_invalid n)) ns)))
   \<and> (no_interrupts E \<and> 0 \<le> d \<and> d \<le> sleep_max \<longrightarrow>
      (\<exists>evs. send_report E ns message d tr = (Inr (), tr @ evs)
         \<and> navigations evs = map send_url (List.map_filter (\<lambda>n. normalize_phone (VStr n)) ns)
         \<and> report_warnings evs = filter (\<lambda>n. normalize_phone (VStr n) = None) ns))
   \<and> (main_try E a numbers message start tr = (Inr stats, tr') \<longrightarrow>
      (\<exists>tr1. process_numbers E numbers message (delay a) tr = (Inr stats, tr1)))"
proof -
  have step: "send_report E (n # ns) message d tr =
        send_report E ns message d (tr @ [(Log (Warning_report_invalid n), None)])"
    if "normalize_phone (VStr n) = None"
    using that by (simp add: bind_def logging_def del: normalize_phone.simps)
  from step send_report_all_invalid [of ns E message d tr]
    send_report_returns [of E d ns message tr]
    main_try_keeps_stats [of E a numbers message start tr stats tr']
  show ?thesis by blast
qed

theorem send_report_skips_invalid_witness:
  "normalize_phone (VStr ''abc'') = None
   \<and> send_report env_timeout [''abc'', ''11 9''] ''Oi'' 5 [] =
       send_report env_timeout [''11 9''] ''Oi'' 5 [(Log (Warning_report_invalid ''abc''), None)]
   \<and> normalize_phone (VStr '''') = None
   \<and> send_report env_timeout [''abc'', ''''] ''Oi'' 5 [] =
       (Inr (), succeeded [Log (Warning_report_invalid ''abc''), Log (Warning_report_invalid '''')])
   \<and> no_interrupts env_timeout \<and> (0::real) \<le> 5 \<and> (5::real) \<le> sleep_max
   \<and> (\<exists>evs. send_report env_timeout [''abc'', ''11 9''] ''Oi'' 5 [] = (Inr (), evs)
        \<and> navigations evs = [send_url ''119''] \<and> report_warnings evs = [''abc''])
   \<and> (\<exists>tr1. process_numbers env_timeout [''11111111111'', ''22222222222''] ''Oi'' 5 [] =
        (Inr \<lparr>successful_numbers = [''11111111111''], failed_numbers = [''22222222222'']\<rparr>, tr1))"
proof -
  let ?stats = "\<lparr>successful_numbers = [''11111111111''], failed_numbers = [''22222222222'']\<rparr>"
  let ?run = "main_try env_timeout default_args [''11111111111'', ''22222222222''] ''Oi'' 0 []"
  have h1: "normalize_phone (VStr ''abc'') = None" by (simp add: char_class_defs)
  have h2: "\<forall>n\<in>set [''abc'', ''''] . normalize_phone (VStr n) = None" by (simp add: char_class_defs)
  have h3: "no_interrupts env_timeout \<and> (0::real) \<le> 5 \<and> (5::real) \<le> sleep_max"
    by (simp add: no_interrupts_env_timeout sleep_max_def)
  have h4: "?run = (Inr ?stats, snd ?run)"
    using main_try_env_timeout by (metis prod.collapse)
  have v: "List.map_filter (\<lambda>n. normalize_phone (VStr n)) [''abc'', ''11 9''] = [''119'']"
    "filter (\<lambda>n. normalize_phone (VStr n) = None) [''abc'', ''11 9''] = [''abc'']"
    by (simp_all add: char_class_defs)
  have d: "delay default_args = 5" by (simp add: default_args_def)
  note t1 = send_report_skips_invalid [of "''abc''" env_timeout "[''11 9'']" "''Oi''" 5 "[]"
      default_args "[''11111111111'', ''22222222222'']" 0 ?stats "snd ?run"]
  note t2 = send_report_skips_invalid [of "''abc''" env_timeout "[''abc'', '''']" "''Oi''" 5 "[]"
      default_args "[''11111111111'', ''22222222222'']" 0 ?stats "snd ?run"]
  note t3 = send_report_skips_invalid [of "''abc''" env_timeout "[''abc'', ''11 9'']" "''Oi''" 5 "[]"
      default_args "[''11111111111'', ''22222222222'']" 0 ?stats "snd ?run"]
  have c1: "send_report env_timeout [''abc'', ''11 9''] ''Oi'' 5 [] =
       send_report env_timeout [''11 9''] ''Oi'' 5 [(Log (Warning_report_invalid ''abc''), None)]"
    using t1 h1 by simp
  have c2: "send_report env_timeout [''abc'', ''''] ''Oi'' 5 [] =
       (Inr (), succeeded [Log (Warning_report_invalid ''abc''), Log (Warning_report_invalid '''')])"
    using t2 h2 by simp
  have c3: "\<exists>evs. send_report env_timeout [''abc'', ''11 9''] ''Oi'' 5 [] = (Inr (), evs)
        \<and> navigations evs = [send_url ''119''] \<and> report_warnings evs = [''abc'']"
    using t3 h3 unfolding v by simp
  have c4: "\<exists>tr1. process_numbers env_timeout [''11111111111'', ''22222222222''] ''Oi'' 5 [] =
        (Inr ?stats, tr1)"
    using t1 h4 unfolding d by blast
  have h2': "normalize_phone (VStr '''') = None" by simp
  from h1 c1 h2' c2 h3 c3 c4 show ?thesis by blast
qed

section \<open>Command line\<close>




section \<open>Main: the session and the exit code\<close>

lemma quits_inside: "list_all inside_session evs \<Longrightarrow> count_list (calls evs) Quit = 0"
  by (induction evs) (auto simp: calls_def inside_session_def)

lemma not_created_inside: "list_all inside_session evs \<Longrightarrow> (Maximize_window, r) \<notin> set evs"
  by (induction evs) (auto simp: inside_session_def)

lemma count_list_append: "count_list (xs @ ys) x = count_list xs x + count_list ys x"
  by (induction xs) auto

lemma session_run:
  assumes "snd (main_try E a numbers message start tr) = tr @ evs"
  shows "snd (bind (try_finally (main_try E a numbers message start) (perform E Quit))
            (\<lambda>_. return (0::int)) tr)
         = tr @ evs @ [(Quit, outcome E (tr @ evs) Quit)]"
  using assms
  by (cases "main_try E a numbers message start tr"; cases "outcome E (tr @ evs) Quit")
     (auto simp: bind_def try_finally_def perform_def return_def split: sum.splits)

lemma bind_return_0:
  "fst (bind m (\<lambda>_. return (0::int)) tr) = Inr 0 \<or> (\<exists>e. fst (bind m (\<lambda>_. return (0::int)) tr) = Inl e)"
  by (cases "m tr") (auto simp: bind_def return_def split: sum.splits)

lemma main_args_cases:
  "(\<exists>evs q n r. list_all inside_session evs \<and> (r = Inr 0 \<or> (\<exists>e. r = Inl e)) \<and>
        main_args E a [] =
          (r, [(Log (Info_total n), None), (Chrome (user_data_dir a) (headless a), None),
               (Maximize_window, None)] @ evs @ [(Quit, q)]))
   \<or> (\<exists>e. main_args E a [] = (Inl e, []))
   \<or> (load_numbers E (workbook a) (sheet a) (column a) (limit a) = Inr []
        \<and> main_args E a [] = (Inr 1, [(Log Warning_no_numbers, None)]))
   \<or> (\<exists>n e. main_args E a [] =
          (Inl e, [(Log (Info_total n), None), (Chrome (user_data_dir a) (headless a), Some e)]))
   \<or> (\<exists>n e. main_args E a [] =
          (Inl e, [(Log (Info_total n), None), (Chrome (user_data_dir a) (headless a), None),
           (Maximize_window, Some e)]))"
proof (cases "load_message E (message_file a)")
  case (Inl e)
  then show ?thesis by (simp add: main_args_def bind_def lift_def)
next
  case m: (Inr message)
  show ?thesis
  proof (cases "load_numbers E (workbook a) (sheet a) (column a) (limit a)")
    case (Inl e)
    then show ?thesis using m by (simp add: main_args_def bind_def lift_def)
  next
    case ns: (Inr numbers)
    show ?thesis
    proof (cases "numbers = []")
      case True
      then show ?thesis using m ns
        by (simp add: main_args_def bind_def lift_def logging_def return_def)
    next
      case ne: False
      let ?t1 = "[(Log (Info_total (length numbers)), None)]"
      let ?chrome = "Chrome (user_data_dir a) (headless a)"
      show ?thesis
      proof (cases "outcome E ?t1 ?chrome")
        case (Some e)
        then have "main_args E a [] = (Inl e, ?t1 @ [(?chrome, Some e)])"
          using m ns ne
          by (simp add: main_args_def bind_def lift_def logging_def build_browser_def perform_def)
        then show ?thesis by simp
      next
        case c: None
        let ?t2 = "?t1 @ [(?chrome, None)]"
        show ?thesis
        proof (cases "outcome E ?t2 Maximize_window")
          case (Some e)
          then have "main_args E a [] = (Inl e, ?t2 @ [(Maximize_window, Some e)])"
            using m ns ne c
            by (simp add: main_args_def bind_def lift_def logging_def build_browser_def perform_def)
          then show ?thesis by simp
        next
          case mw: None
          let ?t3 = "?t2 @ [(Maximize_window, None)]"
          let ?run = "bind (try_finally (main_try E a numbers message (clock E ?t3)) (perform E Quit))
                (\<lambda>_. return (0::int)) ?t3"
          from appends_main_try [of E a numbers message "clock E ?t3"]
          obtain evs where
            ev: "snd (main_try E a numbers message (clock E ?t3) ?t3) = ?t3 @ evs"
            and ins: "list_all inside_session evs"
            unfolding appends_def by blast
          have eq: "main_args E a [] = ?run"
            using m ns ne c mw
            by (simp add: main_args_def bind_def lift_def logging_def build_browser_def
                perform_def time_time_def)
          have tr: "snd ?run = ?t3 @ evs @ [(Quit, outcome E (?t3 @ evs) Quit)]"
            using session_run [OF ev] by simp
          have r: "fst ?run = Inr 0 \<or> (\<exists>e. fst ?run = Inl e)"
            by (rule bind_return_0)
          have "main_args E a [] = (fst ?run, ?t3 @ evs @ [(Quit, outcome E (?t3 @ evs) Quit)])"
            using eq tr by (metis prod.collapse)
          with ins r show ?thesis by auto
        qed
      qed
    qed
  qed
qed

lemma main_env_ctrl_c:
  "main env_ctrl_c [Opt_message_file ''mensagem.txt''] =
     (Inl KeyboardInterrupt,
      [(Log (Info_total 2), None), (Chrome None False, None), (Maximize_window, None),
       (Get (send_url ''11111111111''), None), (Until_title, None), (Until_message_box, None),
       (Send_keys ''Oi'', None), (Log (Info_sent ''11111111111''), None), (Sleep 5, None),
       (Switch_to_alert, Some NoAlertPresentException),
       (Get (send_url ''22222222222''), None), (Until_title, None), (Until_message_box, None),
       (Send_keys ''Oi'', None), (Log (Info_sent ''22222222222''), None),
       (Sleep 5, Some KeyboardInterrupt), (Quit, None)])"
  by (simp add: main_def main_args_def main_try_def parse_args_def default_args_def
  load_numbers_def load_numbers_cells_def build_browser_def process_numbers_def
  send_message_def send_message_try_def send_message_finally_def dismiss_alert_def io_defs
  Let_def char_class_defs calls_def env_ctrl_c_def)

lemma main_env_timeout_code:
  "fst (main env_timeout [Opt_message_file ''mensagem.txt'']) = Inr 0"
  by (simp add: run_defs env_timeout_def build_report_def tempo_medio_def truediv_def total_def
      format_duration_def time_gmtime_def)

text \<open>
  C2: in every run in which \<open>build_browser\<close> returned a session, \<open>browser.quit\<close> is
  called exactly once, as the last call of the run, whatever happened in between: sends
  that failed, or an exception that left \<open>process_numbers\<close>, the report or its dispatch.
  In a run in which \<open>build_browser\<close> did not return, \<open>browser.quit\<close> is not called.
\<close>

theorem main_releases_session_once:
  "(session_created (snd (main E argv)) \<longrightarrow>
      quits (snd (main E argv)) = 1 \<and> fst (last (snd (main E argv))) = Quit)
   \<and> (\<not> session_created (snd (main E argv)) \<longrightarrow> quits (snd (main E argv)) = 0)"
proof -
  let ?a = "parse_args argv"
  have m: "main E argv = main_args E ?a []" by (simp add: main_def)
  consider
    (run) evs q n r where "list_all inside_session evs"
      "main E argv = (r, [(Log (Info_total n), None), (Chrome (user_data_dir ?a) (headless ?a), None),
           (Maximize_window, None)] @ evs @ [(Quit, q)])"
    | (early) e where "main E argv = (Inl e, [])"
    | (empty) "main E argv = (Inr 1, [(Log Warning_no_numbers, None)])"
    | (chrome) n e where "main E argv =
        (Inl e, [(Log (Info_total n), None), (Chrome (user_data_dir ?a) (headless ?a), Some e)])"
    | (maximize) n e where "main E argv =
        (Inl e, [(Log (Info_total n), None), (Chrome (user_data_dir ?a) (headless ?a), None),
           (Maximize_window, Some e)])"
    using main_args_cases [of E ?a] unfolding m by blast
  then show ?thesis
  proof cases
    case run
    show ?thesis
      unfolding run(2) using quits_inside [OF run(1)]
      by (simp add: quits_def calls_def count_list_append session_created_def)
  next
    case early
    then show ?thesis by (simp add: quits_def calls_def session_created_def)
  next
    case empty
    then show ?thesis by (simp add: quits_def calls_def session_created_def)
  next
    case chrome
    then show ?thesis by (simp add: quits_def calls_def session_created_def)
  next
    case maximize
    then show ?thesis by (simp add: quits_def calls_def session_created_def)
  qed
qed

theorem main_releases_session_once_witness:
  "session_created (snd (main env_ctrl_c [Opt_message_file ''mensagem.txt'']))
   \<and> fst (main env_ctrl_c [Opt_message_file ''mensagem.txt'']) = Inl KeyboardInterrupt
   \<and> quits (snd (main env_ctrl_c [Opt_message_file ''mensagem.txt''])) = 1
   \<and> fst (last (snd (main env_ctrl_c [Opt_message_file ''mensagem.txt'']))) = Quit
   \<and> \<not> session_created (snd (main env_no_numbers []))
   \<and> quits (snd (main env_no_numbers [])) = 0"
proof -
  have c: "session_created (snd (main env_ctrl_c [Opt_message_file ''mensagem.txt'']))"
    "fst (main env_ctrl_c [Opt_message_file ''mensagem.txt'']) = Inl KeyboardInterrupt"
    unfolding main_env_ctrl_c by (simp_all add: session_created_def)
  have n: "\<not> session_created (snd (main env_no_numbers []))"
    by (simp add: run_defs env_no_numbers_def session_created_def)
  show ?thesis
    using main_releases_session_once [of env_ctrl_c "[Opt_message_file ''mensagem.txt'']"]
      main_releases_session_once [of env_no_numbers "[]"] c n
    by simp
qed

text \<open>
  C5: when the message was loaded and the number source yields no number, \<open>main\<close>
  returns 1 and the only thing it did is to log the warning: no browser, no report. When
  the number source yields at least one number and \<open>main\<close> returns, it returns 0, after
  a session was created and released.
\<close>

theorem main_exit_code:
  assumes "a = parse_args argv"
  shows "(load_message E (message_file a) = Inr message
          \<and> load_numbers E (workbook a) (sheet a) (column a) (limit a) = Inr [] \<longrightarrow>
            main E argv = (Inr 1, [(Log Warning_no_numbers, None)]))
       \<and> (load_numbers E (workbook a) (sheet a) (column a) (limit a) = Inr numbers
          \<and> numbers \<noteq> [] \<and> main E argv = (Inr code, tr) \<longrightarrow>
            code = 0 \<and> session_created tr \<and> quits tr = 1)"
proof -
  have one: "main E argv = (Inr 1, [(Log Warning_no_numbers, None)])"
    if "load_message E (message_file a) = Inr message"
      "load_numbers E (workbook a) (sheet a) (column a) (limit a) = Inr []"
    using that assms by (simp add: main_def main_args_def bind_def lift_def logging_def return_def)
  have zero: "code = 0 \<and> session_created tr \<and> quits tr = 1"
    if ns: "load_numbers E (workbook a) (sheet a) (column a) (limit a) = Inr numbers"
      and ne: "numbers \<noteq> []" and r: "main E argv = (Inr code, tr)"
  proof -
    from r have r': "main_args E a [] = (Inr code, tr)" using assms by (simp add: main_def)
    from main_args_cases [of E a] r' ns ne
    obtain evs q n where "list_all inside_session evs" "code = 0"
      "tr = [(Log (Info_total n), None), (Chrome (user_data_dir a) (headless a), None),
               (Maximize_window, None)] @ evs @ [(Quit, q)]"
      by auto
    then show ?thesis using quits_inside [of evs]
      by (simp add: quits_def calls_def count_list_append session_created_def)
  qed
  from one zero show ?thesis by blast
qed

theorem main_exit_code_witness:
  "load_message env_no_numbers (message_file (parse_args [])) = Inr DEFAULT_MESSAGE
   \<and> load_numbers env_no_numbers ''Pasta3.xlsx'' ''Planilha78'' ''A'' None = Inr []
   \<and> main env_no_numbers [] = (Inr 1, [(Log Warning_no_numbers, None)])
   \<and> load_numbers env_timeout ''Pasta3.xlsx'' ''Planilha78'' ''A'' None
       = Inr [''11111111111'', ''22222222222'']
   \<and> fst (main env_timeout [Opt_message_file ''mensagem.txt'']) = Inr 0
   \<and> session_created (snd (main env_timeout [Opt_message_file ''mensagem.txt'']))
   \<and> quits (snd (main env_timeout [Opt_message_file ''mensagem.txt''])) = 1"
proof -
  let ?argv = "[Opt_message_file ''mensagem.txt'']"
  have a0: "parse_args [] = default_args" by (simp add: parse_args_def)
  have a1: "parse_args ?argv = default_args\<lparr>message_file := Some ''mensagem.txt''\<rparr>"
    by (simp add: parse_args_def)
  have m0: "load_message env_no_numbers (message_file (parse_args [])) = Inr DEFAULT_MESSAGE"
    by (simp add: a0 default_args_def)
  have n0: "load_numbers env_no_numbers ''Pasta3.xlsx'' ''Planilha78'' ''A'' None = Inr []"
    by (simp add: load_numbers_def load_numbers_cells_def env_no_numbers_def char_class_defs)
  have n1: "load_numbers env_timeout ''Pasta3.xlsx'' ''Planilha78'' ''A'' None
       = Inr [''11111111111'', ''22222222222'']"
    by (simp add: load_numbers_def load_numbers_cells_def env_timeout_def char_class_defs)
  have r1: "main env_timeout ?argv = (Inr 0, snd (main env_timeout ?argv))"
    using main_env_timeout_code by (metis prod.collapse)
  have one: "main env_no_numbers [] = (Inr 1, [(Log Warning_no_numbers, None)])"
    using main_exit_code [of default_args "[]" env_no_numbers DEFAULT_MESSAGE] a0 m0 n0
    by (simp add: default_args_def)
  have zero: "session_created (snd (main env_timeout ?argv)) \<and> quits (snd (main env_timeout ?argv)) = 1"
    using main_exit_code [of "default_args\<lparr>message_file := Some ''mensagem.txt''\<rparr>" ?argv
        env_timeout _ "[''11111111111'', ''22222222222'']" 0 "snd (main env_timeout ?argv)"]
      a1 n1 r1
    by (simp add: default_args_def)
  from m0 n0 one n1 main_env_timeout_code zero show ?thesis by blast
qed

end
